theory Spec2Isabelle
  imports Complex_Main
begin

section \<open>Conventions of the embedding\<close>

text \<open>
  The module \<^verbatim>\<open>radmc3dPy/image.py\<close> is embedded function by function.
  \<^item> A numpy \<^verbatim>\<open>float64\<close> is idealised as a \<^typ>\<open>real\<close> and a complex
    number as a \<^typ>\<open>complex\<close>: rounding, infinities and NaN are outside the
    model. Where the source divides numpy values by zero (numpy then yields inf or
    nan and a warning, never an exception) the model returns a value too, HOL's
    \<open>x / 0 = 0\<close>, and no theorem below reads such a value. A division of two
    Python floats by zero raises \<^verbatim>\<open>ZeroDivisionError\<close> and is a branch of the model.
  \<^item> A numpy array is a nested list, outermost axis first: \<open>a ! i ! j ! k\<close> is
    \<^verbatim>\<open>a[i,j,k]\<close>.
  \<^item> Every exception of the source is a value \<open>Inl e\<close> of the result type.
  \<^item> \<^verbatim>\<open>print\<close> statements are dropped.
\<close>

datatype error = AttributeError | IndexError | ValueError | TypeError | ZeroDivisionError

definition bindE :: "error + 'a \<Rightarrow> ('a \<Rightarrow> error + 'b) \<Rightarrow> error + 'b" where
  "bindE m f = (case m of Inl e \<Rightarrow> Inl e | Inr v \<Rightarrow> f v)"

text \<open>A \<^verbatim>\<open>for\<close> loop whose iterations are independent of each other: the results
  of the iterations in order, or the exception of the first iteration that raises.\<close>

primrec traverse :: "('a \<Rightarrow> error + 'b) \<Rightarrow> 'a list \<Rightarrow> error + 'b list" where
  "traverse f [] = Inr []"
| "traverse f (x # xs) = bindE (f x) (\<lambda>y. bindE (traverse f xs) (\<lambda>ys. Inr (y # ys)))"

text \<open>Python's \<^verbatim>\<open>xs[i]\<close> for an index \<open>i \<ge> 0\<close>.\<close>

definition item :: "'a list \<Rightarrow> nat \<Rightarrow> error + 'a" where
  "item xs i = (if i < length xs then Inr (xs ! i) else Inl IndexError)"

text \<open>The constants of the source: the astronomical unit \<^verbatim>\<open>1.496e13\<close> and the
  parsec \<^verbatim>\<open>3.0857200e+18\<close>, both in cm.\<close>

definition au_cm :: real where
  "au_cm = 1496 * 10 ^ 10"

definition pc_cm :: real where
  "pc_cm = 308572 * 10 ^ 13"

lemma bindE_Inl [simp]: "bindE (Inl e) f = Inl e"
  by (simp add: bindE_def)

lemma bindE_Inr [simp]: "bindE (Inr v) f = f v"
  by (simp add: bindE_def)

lemma bindE_eq_Inr: "bindE m f = Inr r \<longleftrightarrow> (\<exists>v. m = Inr v \<and> f v = Inr r)"
  by (cases m) simp_all

lemma bindE_eq_Inl: "bindE m f = Inl e \<longleftrightarrow> m = Inl e \<or> (\<exists>v. m = Inr v \<and> f v = Inl e)"
  by (cases m) simp_all

lemma item_Inr [simp]: "i < length xs \<Longrightarrow> item xs i = Inr (xs ! i)"
  by (simp add: item_def)

lemma item_Inl [simp]: "\<not> i < length xs \<Longrightarrow> item xs i = Inl IndexError"
  by (simp add: item_def)

lemma traverse_total:
  "(\<And>x. x \<in> set xs \<Longrightarrow> f x = Inr (g x)) \<Longrightarrow> traverse f xs = Inr (map g xs)"
  by (induction xs) simp_all

lemma traverse_Inr_length: "traverse f xs = Inr ys \<Longrightarrow> length ys = length xs"
  by (induction xs arbitrary: ys) (auto simp: bindE_eq_Inr)

lemma traverse_Inr_nth:
  "traverse f xs = Inr ys \<Longrightarrow> i < length xs \<Longrightarrow> f (xs ! i) = Inr (ys ! i)"
proof (induction xs arbitrary: ys i)
  case Nil
  then show ?case by simp
next
  case (Cons x xs)
  then obtain y ys' where f: "f x = Inr y" and t: "traverse f xs = Inr ys'" and ys: "ys = y # ys'"
    by (auto simp: bindE_eq_Inr)
  show ?case
  proof (cases i)
    case 0
    then show ?thesis using f ys by simp
  next
    case (Suc j)
    then show ?thesis using Cons.IH [OF t, of j] Cons.prems(2) ys by simp
  qed
qed

lemma traverse_Inl:
  "x \<in> set xs \<Longrightarrow> f x = Inl e \<Longrightarrow> \<exists>e'. traverse f xs = Inl e'"
proof (induction xs)
  case Nil
  then show ?case by simp
next
  case (Cons a xs)
  show ?case
  proof (cases "f a")
    case (Inl e0)
    then show ?thesis by simp
  next
    case (Inr y)
    then have "x \<in> set xs" using Cons.prems by auto
    then obtain e' where "traverse f xs = Inl e'" using Cons.IH Cons.prems(2) by blast
    then show ?thesis using Inr by simp
  qed
qed


section \<open>The Gaussian beam: \<^verbatim>\<open>getPSF\<close>\<close>

text \<open>The dictionary \<^verbatim>\<open>{'psf':psf, 'x':x, 'y':y}\<close> that \<^verbatim>\<open>getPSF\<close> returns.\<close>

record psf_result =
  psf_psf :: "real list list"
  psf_x :: "real list"
  psf_y :: "real list"

text \<open>\<^verbatim>\<open>(arange(n, dtype=float64) - n/2) * d\<close>; \<open>n\<close> is a Python 2 integer, so
  \<^verbatim>\<open>n/2\<close> is the floor division.\<close>

definition psf_axis :: "nat \<Rightarrow> real \<Rightarrow> real list" where
  "psf_axis n d = map (\<lambda>i. (real i - real (n div 2)) * d) [0..<n]"

text \<open>\<^verbatim>\<open>fwhm[k] / (2.0 * sqrt(2.0 * log(2.)))\<close>\<close>

definition fwhm_sigma :: "real \<Rightarrow> real" where
  "fwhm_sigma f = f / (2 * sqrt (2 * ln 2))"

text \<open>\<^verbatim>\<open>norm = 1./(2. * pi * sigmax * sigmay)\<close>\<close>

definition psf_norm :: "real \<Rightarrow> real \<Rightarrow> real" where
  "psf_norm sigmax sigmay = 1 / (2 * pi * sigmax * sigmay)"

text \<open>The body of the double loop: the value stored in \<^verbatim>\<open>psf[ix,iy]\<close>.\<close>

definition psf_pixel :: "real \<Rightarrow> real \<Rightarrow> real \<Rightarrow> real \<Rightarrow> real \<Rightarrow> real \<Rightarrow> real" where
  "psf_pixel sigmax sigmay sin_pa cos_pa xi yj =
     (let xx = cos_pa * xi - sin_pa * yj;
          yy = sin_pa * xi + cos_pa * yj
      in exp (- 0.5 * xx * xx / sigmax / sigmax - 0.5 * yy * yy / sigmay / sigmay))"

text \<open>The array \<^verbatim>\<open>psf\<close> when the double loop has run, before the line
  \<^verbatim>\<open>psf = psf / norm\<close>.\<close>

definition psf_loop ::
  "nat \<Rightarrow> nat \<Rightarrow> real list \<Rightarrow> real list \<Rightarrow> real \<Rightarrow> real \<Rightarrow> real \<Rightarrow> real \<Rightarrow> real list list" where
  "psf_loop nx ny x y sigmax sigmay sin_pa cos_pa =
     map (\<lambda>ix. map (\<lambda>iy. psf_pixel sigmax sigmay sin_pa cos_pa (x ! ix) (y ! iy)) [0..<ny]) [0..<nx]"

definition getPSF ::
  "nat \<Rightarrow> nat \<Rightarrow> real list \<Rightarrow> real \<Rightarrow> real list option \<Rightarrow> error + psf_result" where
  "getPSF nx ny fwhm pa pscale =
     bindE (case pscale of
              None \<Rightarrow> Inr (1, 1)
            | Some p \<Rightarrow> bindE (item p 0) (\<lambda>dx. bindE (item p 1) (\<lambda>dy. Inr (dx, dy))))
       (\<lambda>(dx, dy).
          let x = psf_axis nx dx;
              y = psf_axis ny dy
          in bindE (item fwhm 0) (\<lambda>f0. bindE (item fwhm 1) (\<lambda>f1.
               let sigmax = fwhm_sigma f0;
                   sigmay = fwhm_sigma f1;
                   sin_pa = sin (pa / 180 * pi - pi / 2);
                   cos_pa = cos (pa / 180 * pi - pi / 2);
                   psf = psf_loop nx ny x y sigmax sigmay sin_pa cos_pa
               in Inr \<lparr>psf_psf = map (map (\<lambda>v. v / psf_norm sigmax sigmay)) psf,
                        psf_x = x, psf_y = y\<rparr>)))"

lemma psf_loop_nth:
  "ix < nx \<Longrightarrow> iy < ny \<Longrightarrow>
   psf_loop nx ny x y sigmax sigmay sin_pa cos_pa ! ix ! iy =
   psf_pixel sigmax sigmay sin_pa cos_pa (x ! ix) (y ! iy)"
  by (simp add: psf_loop_def)

lemma psf_axis_center: "0 < n \<Longrightarrow> psf_axis n d ! (n div 2) = 0"
  by (simp add: psf_axis_def)

lemma psf_pixel_origin: "psf_pixel sigmax sigmay sin_pa cos_pa 0 0 = 1"
  by (simp add: psf_pixel_def)

lemma psf_pixel_le_1: "psf_pixel sigmax sigmay sin_pa cos_pa xi yj \<le> 1"
proof -
  have e: "- 0.5 * a * a / s / s - 0.5 * b * b / t / t = - (((a / s)\<^sup>2 + (b / t)\<^sup>2) / 2)"
    for a b s t :: real
    by (simp add: power2_eq_square algebra_simps)
  have "- 0.5 * a * a / s / s - 0.5 * b * b / t / t \<le> 0" for a b s t :: real
    unfolding e by simp
  then show ?thesis
    by (simp add: psf_pixel_def Let_def)
qed

lemma getPSF_Inr:
  assumes "pscale = None \<or> (\<exists>dx dy. pscale = Some [dx, dy])"
  shows "\<exists>dx dy. getPSF nx ny [fx, fy] pa pscale =
     Inr \<lparr>psf_psf = map (map (\<lambda>v. v / psf_norm (fwhm_sigma fx) (fwhm_sigma fy)))
              (psf_loop nx ny (psf_axis nx dx) (psf_axis ny dy) (fwhm_sigma fx) (fwhm_sigma fy)
                 (sin (pa / 180 * pi - pi / 2)) (cos (pa / 180 * pi - pi / 2))),
            psf_x = psf_axis nx dx, psf_y = psf_axis ny dy\<rparr>"
proof (cases pscale)
  case None
  then show ?thesis
    by (intro exI [of _ 1]) (simp add: getPSF_def Let_def)
next
  case (Some p)
  then obtain dx dy where "pscale = Some [dx, dy]"
    using assms by auto
  then show ?thesis
    by (intro exI [of _ dx] exI [of _ dy]) (simp add: getPSF_def Let_def)
qed

text \<open>
  Claim C3, as the code has it. For all positive \<open>fwhm = (fx, fy)\<close> and position angle 0,
  \<^verbatim>\<open>getPSF\<close> returns a kernel that is the array of the double loop with every value
  divided by \<open>1 / (2 * pi * sigma_x * sigma_y)\<close>, where \<open>sigma = fwhm / (2 * sqrt (2 * ln 2))\<close>
  on each axis. Before the division the value at the centre pixel \<open>(nx div 2, ny div 2)\<close> is
  exactly 1 and no value of the array is larger (the peak); immediately after the division
  the centre value is \<open>2 * pi * sigma_x * sigma_y\<close>, the reciprocal of the normalisation
  constant.
\<close>

theorem getPSF_center:
  assumes "0 < fx" and "0 < fy" and "0 < nx" and "0 < ny"
    and "pscale = None \<or> (\<exists>dx dy. pscale = Some [dx, dy])"
  shows "\<exists>r. getPSF nx ny [fx, fy] 0 pscale = Inr r \<and>
     (let sigmax = fx / (2 * sqrt (2 * ln 2));
          sigmay = fy / (2 * sqrt (2 * ln 2));
          before = psf_loop nx ny (psf_x r) (psf_y r) sigmax sigmay
                     (sin (0 / 180 * pi - pi / 2)) (cos (0 / 180 * pi - pi / 2))
      in psf_psf r = map (map (\<lambda>v. v / (1 / (2 * pi * sigmax * sigmay)))) before \<and>
         before ! (nx div 2) ! (ny div 2) = 1 \<and>
         (\<forall>ix<nx. \<forall>iy<ny. before ! ix ! iy \<le> 1) \<and>
         psf_psf r ! (nx div 2) ! (ny div 2) = 2 * pi * sigmax * sigmay)"
proof -
  obtain dx dy where r: "getPSF nx ny [fx, fy] 0 pscale =
     Inr \<lparr>psf_psf = map (map (\<lambda>v. v / psf_norm (fwhm_sigma fx) (fwhm_sigma fy)))
              (psf_loop nx ny (psf_axis nx dx) (psf_axis ny dy) (fwhm_sigma fx) (fwhm_sigma fy)
                 (sin (0 / 180 * pi - pi / 2)) (cos (0 / 180 * pi - pi / 2))),
            psf_x = psf_axis nx dx, psf_y = psf_axis ny dy\<rparr>"
    using getPSF_Inr [OF assms(5)] by blast
  have c: "nx div 2 < nx" "ny div 2 < ny"
    using assms(3,4) by simp_all
  show ?thesis
    unfolding r using c
    apply (simp add: Let_def psf_loop_nth psf_axis_center assms psf_pixel_origin psf_pixel_le_1 fwhm_sigma_def psf_norm_def)
    apply (simp add: psf_loop_def psf_axis_center assms psf_pixel_origin)
    done
qed


text \<open>Witness of C3: a 2 by 2 kernel with \<open>fwhm = (1, 1)\<close> on the default pixel scale.\<close>

theorem getPSF_center_witness:
  "\<exists>r. getPSF 2 2 [1, 1] 0 None = Inr r \<and>
     (let sigmax = 1 / (2 * sqrt (2 * ln 2));
          sigmay = 1 / (2 * sqrt (2 * ln 2));
          before = psf_loop 2 2 (psf_x r) (psf_y r) sigmax sigmay
                     (sin (0 / 180 * pi - pi / 2)) (cos (0 / 180 * pi - pi / 2))
      in psf_psf r = map (map (\<lambda>v. v / (1 / (2 * pi * sigmax * sigmay)))) before \<and>
         before ! (2 div 2) ! (2 div 2) = 1 \<and>
         (\<forall>ix<2. \<forall>iy<2. before ! ix ! iy \<le> 1) \<and>
         psf_psf r ! (2 div 2) ! (2 div 2) = 2 * pi * sigmax * sigmay)"
  using getPSF_center [of 1 1 2 2 None] by simp

text \<open>
  Counterexample to C3 as stated: for \<open>nx = ny = 2\<close>, \<open>fwhm = (2, 2)\<close> and position angle 0
  the centre value after the normalisation is \<open>pi / ln 2\<close>, not 1, and the centre value
  before the division is 1, not the reciprocal \<open>pi / ln 2\<close> of the normalisation constant.
\<close>

theorem getPSF_center_counterexample:
  "\<not> isl (getPSF 2 2 [2, 2] 0 None) \<and>
   psf_psf (projr (getPSF 2 2 [2, 2] 0 None)) ! 1 ! 1 \<noteq> 1 \<and>
   psf_loop 2 2 (psf_axis 2 1) (psf_axis 2 1) (fwhm_sigma 2) (fwhm_sigma 2)
     (sin (0 / 180 * pi - pi / 2)) (cos (0 / 180 * pi - pi / 2)) ! 1 ! 1
   \<noteq> 1 / psf_norm (fwhm_sigma 2) (fwhm_sigma 2)"
proof -
  have l: "0 < ln (2::real)" "ln (2::real) < 1"
    using ln_2_less_1 by simp_all
  then have "ln (2::real) < pi"
    using pi_ge_two by linarith
  then have ne: "pi / ln 2 \<noteq> 1"
    using l by simp
  have s: "sqrt (2 * ln 2) * sqrt (2 * ln 2) = 2 * ln 2"
    using l by simp
  have v: "2 * pi / (sqrt (2 * ln 2) * sqrt (2 * ln 2)) = pi / ln 2"
    unfolding s by simp
  show ?thesis
    using ne v
    by (simp add: getPSF_def psf_axis_def psf_loop_def fwhm_sigma_def psf_norm_def
        psf_pixel_def Let_def)
qed

section \<open>The image cube\<close>

text \<open>
  The attribute \<^verbatim>\<open>image\<close> is the integer \<^verbatim>\<open>0\<close> in a fresh object (\<open>Img0\<close>); the
  loader replaces it by a numpy array of rank 3, \<^verbatim>\<open>[nx, ny, nwav]\<close>, for a total
  intensity image and of rank 4, \<^verbatim>\<open>[nx, ny, 4, nwav]\<close>, for a Stokes image (it never
  squeezes an axis: both \<^verbatim>\<open>squeeze\<close> calls are commented out). The rank is part of
  the value, since numpy's indexing depends on it.
\<close>

datatype image = Img0 | Img3 "real list list list" | Img4 "real list list list list"

text \<open>The class \<^verbatim>\<open>radmc3dImage\<close>. The attribute \<^verbatim>\<open>psf\<close> is the empty dictionary
  (\<open>None\<close>) until a convolution stores the kernel.\<close>

record radmc3dImage =
  im_image :: image
  im_imageJyppix :: image
  im_x :: "real list"
  im_y :: "real list"
  im_nx :: nat
  im_ny :: nat
  im_sizepix_x :: real
  im_sizepix_y :: real
  im_nfreq :: nat
  im_freq :: "real list"
  im_nwav :: nat
  im_wav :: "real list"
  im_stokes :: bool
  im_psf :: "real list list option"
  im_fwhm :: "real list"
  im_pa :: real
  im_dpc :: real

text \<open>\<^verbatim>\<open>image * c\<close> for a scalar \<open>c\<close>.\<close>

definition scale_image :: "real \<Rightarrow> image \<Rightarrow> image" where
  "scale_image c img =
     (case img of
        Img0 \<Rightarrow> Img0
      | Img3 a \<Rightarrow> Img3 (map (map (map (\<lambda>v. v * c))) a)
      | Img4 a \<Rightarrow> Img4 (map (map (map (map (\<lambda>v. v * c)))) a))"

subsection \<open>The loader: \<^verbatim>\<open>readImage\<close>, formatted input\<close>

text \<open>
  What the loader reads from \<^verbatim>\<open>image.out\<close>: the header numbers, the wavelength lines
  and then, for every wavelength, the pixel lines (each line as the numbers on it; the
  blank line before every block is skipped as the source skips it). Opening and tokenising
  the file is outside the embedding.
\<close>

record image_file =
  if_iformat :: nat
  if_nx :: nat
  if_ny :: nat
  if_nfreq :: nat
  if_sizepix_x :: real
  if_sizepix_y :: real
  if_wav :: "real list"
  if_pixels :: "real list list"

text \<open>\<^verbatim>\<open>float(rfile.readline())\<close> on pixel line \<open>k\<close>: the line holds one number, else
  \<^verbatim>\<open>ValueError\<close> (also at the end of the file).\<close>

definition read_float :: "real list list \<Rightarrow> nat \<Rightarrow> error + real" where
  "read_float pixel_lines k =
     (if k < length pixel_lines \<and> length (pixel_lines ! k) = 1
      then Inr (hd (pixel_lines ! k)) else Inl ValueError)"

text \<open>\<^verbatim>\<open>dum = rfile.readline().split()\<close> and the four reads \<^verbatim>\<open>float(dum[0])\<close> ...
  \<^verbatim>\<open>float(dum[3])\<close>: a line that is short or missing raises \<^verbatim>\<open>IndexError\<close>.\<close>

definition read_stokes :: "real list list \<Rightarrow> nat \<Rightarrow> error + real list" where
  "read_stokes pixel_lines k =
     (let dum = (if k < length pixel_lines then pixel_lines ! k else [])
      in traverse (item dum) [0..<4])"

text \<open>\<^verbatim>\<open>((arange(n, dtype=float64) + 0.5) - n/2) * sizepix\<close>, with Python 2's integer
  division.\<close>

definition pixel_axis :: "nat \<Rightarrow> real \<Rightarrow> real list" where
  "pixel_axis n sizepix = map (\<lambda>i. ((real i + 0.5) - real (n div 2)) * sizepix) [0..<n]"

text \<open>The three nested loops that fill \<^verbatim>\<open>self.image\<close>: the lines are read in the order
  \<^verbatim>\<open>iwav\<close>, \<^verbatim>\<open>ix\<close>, \<^verbatim>\<open>iy\<close> and stored at \<^verbatim>\<open>[ix,iy,iwav]\<close>, respectively
  \<^verbatim>\<open>[ix,iy,0..3,iwav]\<close>.\<close>

definition read_pixels ::
  "(nat \<Rightarrow> error + 'a) \<Rightarrow> nat \<Rightarrow> nat \<Rightarrow> nat \<Rightarrow> error + 'a list list list" where
  "read_pixels rd nx ny nwav =
     traverse (\<lambda>iwav. traverse (\<lambda>ix. traverse (\<lambda>iy. rd ((iwav * nx + ix) * ny + iy))
       [0..<ny]) [0..<nx]) [0..<nwav]"

definition readImage :: "image_file \<Rightarrow> error + radmc3dImage" where
  "readImage f =
     (let nx = if_nx f; ny = if_ny f; nwav = if_nfreq f
      in bindE (traverse (\<lambda>iwav. if iwav < length (if_wav f) then Inr (if_wav f ! iwav)
                                  else Inl ValueError) [0..<nwav]) (\<lambda>wav.
         bindE (if if_iformat f = 1 then
                  bindE (read_pixels (read_float (if_pixels f)) nx ny nwav) (\<lambda>vals.
                  Inr (False, Img3 (map (\<lambda>ix. map (\<lambda>iy. map (\<lambda>iwav. vals ! iwav ! ix ! iy)
                         [0..<nwav]) [0..<ny]) [0..<nx])))
                else if if_iformat f = 3 then
                  bindE (read_pixels (read_stokes (if_pixels f)) nx ny nwav) (\<lambda>vals.
                  Inr (True, Img4 (map (\<lambda>ix. map (\<lambda>iy. map (\<lambda>k. map (\<lambda>iwav.
                         vals ! iwav ! ix ! iy ! k) [0..<nwav]) [0..<4]) [0..<ny]) [0..<nx])))
                else Inr (False, Img0)) (\<lambda>(stokes, img).
         Inr \<lparr>im_image = img,
              im_imageJyppix =
                scale_image (if_sizepix_x f * if_sizepix_y f / (308572 * 10 ^ 13)\<^sup>2 * 10 ^ 23) img,
              im_x = pixel_axis nx (if_sizepix_x f),
              im_y = pixel_axis ny (if_sizepix_y f),
              im_nx = nx, im_ny = ny,
              im_sizepix_x = if_sizepix_x f, im_sizepix_y = if_sizepix_y f,
              im_nfreq = nwav,
              im_freq = map (\<lambda>w. 299792458 * 10\<^sup>2 / w * 10 ^ 4) wav,
              im_nwav = nwav, im_wav = wav, im_stokes = stokes,
              im_psf = None, im_fwhm = [], im_pa = 0, im_dpc = 0\<rparr>)))"

subsection \<open>numpy broadcasting\<close>

text \<open>
  An elementwise operation on two arrays along one axis: equal lengths pair up, an axis
  of length 1 is repeated, anything else raises \<^verbatim>\<open>ValueError\<close> (operands could not be
  broadcast together). The operation on the elements may itself be a broadcast over the
  next axis.
\<close>

definition bcast :: "('a \<Rightarrow> 'b \<Rightarrow> error + 'c) \<Rightarrow> 'a list \<Rightarrow> 'b list \<Rightarrow> error + 'c list" where
  "bcast f xs ys =
     (if length xs = length ys then traverse (\<lambda>(x, y). f x y) (zip xs ys)
      else if length xs = 1 then traverse (f (hd xs)) ys
      else if length ys = 1 then traverse (\<lambda>x. f x (hd ys)) xs
      else Inl ValueError)"

text \<open>An assignment \<^verbatim>\<open>a[...] = v\<close> into a one-dimensional slot of length \<open>n\<close>: the
  value has the slot's length or length 1, else \<^verbatim>\<open>ValueError\<close>.\<close>

definition assign1 :: "nat \<Rightarrow> 'a list \<Rightarrow> error + 'a list" where
  "assign1 n vs =
     (if length vs = n then Inr vs
      else if length vs = 1 then Inr (replicate n (hd vs))
      else Inl ValueError)"

section \<open>Visibilities: \<^verbatim>\<open>getVisibility\<close>\<close>

text \<open>The dictionary \<^verbatim>\<open>res\<close> that \<^verbatim>\<open>getVisibility\<close> returns; the two-dimensional
  entries are indexed \<^verbatim>\<open>[ibl, iwav]\<close>.\<close>

record visibility =
  vis_bl :: "real list"
  vis_pa :: "real list"
  vis_nbl :: nat
  vis_wav :: "real list"
  vis_nwav :: nat
  vis_u :: "real list list"
  vis_v :: "real list list"
  vis_vis :: "complex list list"
  vis_amp :: "real list list"
  vis_phase :: "real list list"

text \<open>\<^verbatim>\<open>self.x / 1.496e13 / dpc / 3600. / 180.*pi\<close>\<close>

definition sky_coord :: "real \<Rightarrow> real list \<Rightarrow> real list" where
  "sky_coord dpc x = map (\<lambda>xi. xi / au_cm / dpc / 3600 / 180 * pi) x"

text \<open>
  \<^verbatim>\<open>res['u'][:,iwav] = res['bl'] * cos(res['pa']) * 1e6 / self.wav[iwav]\<close>, and the
  same line with \<^verbatim>\<open>sin\<close> for \<^verbatim>\<open>v\<close>: the product of the two arrays broadcasts, the
  wavelength is read, and the column is assigned into a slot of length \<^verbatim>\<open>nbl\<close>.
\<close>

definition spatial_freq ::
  "(real \<Rightarrow> real) \<Rightarrow> real list \<Rightarrow> real list \<Rightarrow> real list \<Rightarrow> nat \<Rightarrow> error + real list" where
  "spatial_freq trig bl pa wav iwav =
     bindE (bcast (\<lambda>b p. Inr (b * trig p)) bl pa) (\<lambda>t.
     bindE (item wav iwav) (\<lambda>w.
     assign1 (length bl) (map (\<lambda>z. z * 10 ^ 6 / w) t)))"

text \<open>
  \<^verbatim>\<open>(self.image[il,:,iwav]*(cterm + imu*sterm)).sum()\<close> for the vector
  \<open>e = cterm + imu*sterm\<close> over \<^verbatim>\<open>m\<close>. On an array of rank 3 the slice is the
  vector \<^verbatim>\<open>image[il,:,iwav]\<close> over the second axis. On an array of rank 4 the index
  \<^verbatim>\<open>iwav\<close> selects along the third (Stokes) axis and the slice has rank 2,
  \<^verbatim>\<open>[ny, nwav]\<close>: the product broadcasts \<open>e\<close> along its last axis.
\<close>

definition fourier_term :: "image \<Rightarrow> nat \<Rightarrow> nat \<Rightarrow> complex list \<Rightarrow> error + complex" where
  "fourier_term img il iwav e =
     (case img of
        Img0 \<Rightarrow> Inl TypeError
      | Img3 a \<Rightarrow>
          bindE (item a il) (\<lambda>plane.
          bindE (traverse (\<lambda>c. item c iwav) plane) (\<lambda>row.
          bindE (bcast (\<lambda>p z. Inr (complex_of_real p * z)) row e) (\<lambda>prod.
          Inr (sum_list prod))))
      | Img4 a \<Rightarrow>
          bindE (item a il) (\<lambda>plane.
          bindE (traverse (\<lambda>c. item c iwav) plane) (\<lambda>sub.
          bindE (traverse (\<lambda>row. bcast (\<lambda>p z. Inr (complex_of_real p * z)) row e) sub) (\<lambda>prod.
          Inr (sum_list (map sum_list prod))))))"

text \<open>The vector \<^verbatim>\<open>cterm + imu*sterm\<close> of one image column \<^verbatim>\<open>il\<close>, with
  \<^verbatim>\<open>phase = 2.*pi * (u*l[il] + v*m)\<close>, \<^verbatim>\<open>cterm = cos(phase)\<close> and
  \<^verbatim>\<open>sterm = -sin(phase)\<close>.\<close>

definition fourier_kernel :: "real \<Rightarrow> real \<Rightarrow> real \<Rightarrow> real list \<Rightarrow> complex list" where
  "fourier_kernel u v l_il m =
     map (\<lambda>mj. let phase = 2 * pi * (u * l_il + v * mj)
               in complex_of_real (cos phase) + \<i> * complex_of_real (- sin phase)) m"

text \<open>The body of the loop over \<^verbatim>\<open>ibl\<close> up to the complex visibility \<^verbatim>\<open>dum\<close> of
  one baseline and one wavelength: the line \<^verbatim>\<open>dmv = zeros(self.image.shape[1])*0. + dm\<close>
  (its value is never used, but it reads the array's shape, which the integer of a fresh
  object does not have) and the loop over \<^verbatim>\<open>il\<close>.\<close>

definition vis_sum ::
  "image \<Rightarrow> real list \<Rightarrow> real list \<Rightarrow> real \<Rightarrow> real \<Rightarrow> real \<Rightarrow> real \<Rightarrow> nat \<Rightarrow> error + complex" where
  "vis_sum img l m dl dm u v iwav =
     bindE (case img of Img0 \<Rightarrow> Inl AttributeError | _ \<Rightarrow> Inr ()) (\<lambda>_.
     bindE (traverse (\<lambda>il.
              bindE (fourier_term img il iwav (fourier_kernel u v (l ! il) m)) (\<lambda>s.
              Inr (s * complex_of_real dl * complex_of_real dm)))
            [0..<length l]) (\<lambda>terms.
     Inr (sum_list terms)))"

text \<open>\<^verbatim>\<open>sqrt(abs(dum * conj(dum)))\<close>\<close>

definition vis_amplitude :: "complex \<Rightarrow> real" where
  "vis_amplitude dum = sqrt (cmod (dum * cnj dum))"

text \<open>\<^verbatim>\<open>arccos(real(dum)/amp)\<close>, replaced by \<^verbatim>\<open>2.*pi - phase\<close> if
  \<^verbatim>\<open>imag(dum)<0.\<close> For a visibility of exactly 0 the source divides 0 by 0 and the
  phase is nan; the value of the model there means nothing, and every statement below
  about a phase is about a visibility that is not 0.\<close>

definition vis_phase_of :: "complex \<Rightarrow> real" where
  "vis_phase_of dum =
     (let phase = arccos (Re dum / vis_amplitude dum)
      in if Im dum < 0 then 2 * pi - phase else phase)"

text \<open>One pass of the loop over \<^verbatim>\<open>iwav\<close>: the two columns of spatial frequencies and,
  for every baseline, the visibility.\<close>

definition vis_column ::
  "radmc3dImage \<Rightarrow> real list \<Rightarrow> real list \<Rightarrow> real list \<Rightarrow> real list \<Rightarrow> real \<Rightarrow> real \<Rightarrow> nat
   \<Rightarrow> error + (real list \<times> real list \<times> complex list)" where
  "vis_column self bl pa l m dl dm iwav =
     bindE (spatial_freq cos bl pa (im_wav self) iwav) (\<lambda>ucol.
     bindE (spatial_freq sin bl pa (im_wav self) iwav) (\<lambda>vcol.
     bindE (traverse (\<lambda>ibl. vis_sum (im_image self) l m dl dm (ucol ! ibl) (vcol ! ibl) iwav)
              [0..<length bl]) (\<lambda>cells.
     Inr (ucol, vcol, cells))))"

text \<open>A two-dimensional array \<^verbatim>\<open>[n1, n2]\<close> given by its entries.\<close>

definition grid :: "nat \<Rightarrow> nat \<Rightarrow> (nat \<Rightarrow> nat \<Rightarrow> 'a) \<Rightarrow> 'a list list" where
  "grid n1 n2 f = map (\<lambda>i. map (\<lambda>j. f i j) [0..<n2]) [0..<n1]"

text \<open>
  \<^verbatim>\<open>getVisibility(self, bl, pa, dpc)\<close> with its three arguments supplied as numbers.
  Every slot \<^verbatim>\<open>[ibl, iwav]\<close> of the result arrays is written once, by the pass
  \<^verbatim>\<open>iwav\<close> of the outer loop, so the arrays are read off the passes' results.
\<close>

definition getVisibility ::
  "radmc3dImage \<Rightarrow> real list \<Rightarrow> real list \<Rightarrow> real \<Rightarrow> error + visibility" where
  "getVisibility self bl pa dpc =
     (let nbl = length bl;
          nwav = im_nwav self;
          l = sky_coord dpc (im_x self);
          m = sky_coord dpc (im_y self)
      in bindE (item l 1) (\<lambda>l1. bindE (item l 0) (\<lambda>l0.
         bindE (item m 1) (\<lambda>m1. bindE (item m 0) (\<lambda>m0.
         let dl = l1 - l0;
             dm = m1 - m0
         in bindE (traverse (vis_column self bl pa l m dl dm) [0..<nwav]) (\<lambda>cols.
            let cell = (\<lambda>ibl iwav. snd (snd (cols ! iwav)) ! ibl)
            in Inr \<lparr>vis_bl = bl, vis_pa = pa, vis_nbl = nbl,
                     vis_wav = im_wav self, vis_nwav = nwav,
                     vis_u = grid nbl nwav (\<lambda>ibl iwav. fst (cols ! iwav) ! ibl),
                     vis_v = grid nbl nwav (\<lambda>ibl iwav. fst (snd (cols ! iwav)) ! ibl),
                     vis_vis = grid nbl nwav cell,
                     vis_amp = grid nbl nwav (\<lambda>ibl iwav. vis_amplitude (cell ibl iwav)),
                     vis_phase = grid nbl nwav (\<lambda>ibl iwav. vis_phase_of (cell ibl iwav))\<rparr>))))))"

subsection \<open>Concrete cubes\<close>

text \<open>A total intensity image file with one wavelength (1 micron), pixels of
  \<^verbatim>\<open>1e12\<close> cm and the value 1.0 in every pixel, and the cube the loader makes of it.\<close>

definition uniform_file :: "nat \<Rightarrow> nat \<Rightarrow> image_file" where
  "uniform_file nx ny =
     \<lparr>if_iformat = 1, if_nx = nx, if_ny = ny, if_nfreq = 1,
      if_sizepix_x = 10 ^ 12, if_sizepix_y = 10 ^ 12,
      if_wav = [1], if_pixels = replicate (nx * ny) [1]\<rparr>"

definition uniform_cube :: "nat \<Rightarrow> nat \<Rightarrow> radmc3dImage" where
  "uniform_cube nx ny = projr (readImage (uniform_file nx ny))"

lemmas loader_eval = readImage_def uniform_file_def read_pixels_def read_float_def
  pixel_axis_def scale_image_def Let_def upt_conv_Cons uniform_cube_def

lemmas visibility_eval = getVisibility_def sky_coord_def vis_column_def spatial_freq_def
  bcast_def assign1_def vis_sum_def fourier_term_def fourier_kernel_def grid_def au_cm_def

subsection \<open>Amplitude and phase\<close>

lemma grid_nth: "i < n1 \<Longrightarrow> j < n2 \<Longrightarrow> grid n1 n2 f ! i ! j = f i j"
  by (simp add: grid_def)

lemma vis_amplitude_cmod: "vis_amplitude z = cmod z"
proof -
  have "cmod (z * cnj z) = (cmod z)\<^sup>2"
    by (simp add: norm_mult power2_eq_square)
  then show ?thesis
    by (simp add: vis_amplitude_def)
qed







subsection \<open>Arguments that are not validated\<close>

lemma spatial_freq_mismatch:
  assumes "length bl \<noteq> length pa" and "length pa \<noteq> 1"
  shows "spatial_freq trig bl pa wav iwav = Inl IndexError \<or>
         spatial_freq trig bl pa wav iwav = Inl ValueError"
proof (cases "length bl = 1")
  case True
  have t: "traverse (\<lambda>p. Inr (hd bl * trig p)) pa = Inr (map (\<lambda>p. hd bl * trig p) pa)"
    by (rule traverse_total) simp
  show ?thesis
    using assms True t
    by (cases "iwav < length wav") (simp_all add: spatial_freq_def bcast_def assign1_def)
next
  case False
  then show ?thesis
    using assms by (simp add: spatial_freq_def bcast_def)
qed

text \<open>
  Claim C7, as the code has it. \<^verbatim>\<open>getVisibility\<close> has no check of its arguments; what
  fails is numpy's arithmetic. When the baseline and position-angle sequences have
  different lengths, the position-angle sequence is not of length 1 and the cube has at
  least one wavelength, the call raises: \<^verbatim>\<open>ValueError\<close> from the product
  \<^verbatim>\<open>res['bl'] * cos(res['pa'])\<close> or the assignment of its result (or \<^verbatim>\<open>IndexError\<close>
  from a coordinate axis of fewer than two pixels or a missing wavelength, read on the
  way). The distance \<^verbatim>\<open>dpc\<close> is not checked at all.
\<close>

theorem getVisibility_length_mismatch:
  assumes "length bl \<noteq> length pa" and "length pa \<noteq> 1" and "0 < im_nwav self"
  shows "getVisibility self bl pa dpc = Inl IndexError \<or>
         getVisibility self bl pa dpc = Inl ValueError"
proof -
  define l where "l = sky_coord dpc (im_x self)"
  define m where "m = sky_coord dpc (im_y self)"
  have n: "[0..<im_nwav self] = 0 # [Suc 0..<im_nwav self]"
    using assms(3) by (simp add: upt_conv_Cons)
  show ?thesis
  proof (cases "1 < length l \<and> 1 < length m")
    case False
    then show ?thesis
      unfolding getVisibility_def Let_def l_def [symmetric] m_def [symmetric]
      by (cases "1 < length l") (auto simp: item_def)
  next
    case True
    then have i: "item l 1 = Inr (l ! 1)" "item l 0 = Inr (l ! 0)"
      "item m 1 = Inr (m ! 1)" "item m 0 = Inr (m ! 0)"
      by (auto simp: item_def)
    from spatial_freq_mismatch [OF assms(1,2), of cos "im_wav self" 0]
    show ?thesis
      unfolding getVisibility_def Let_def l_def [symmetric] m_def [symmetric] i n
      by (auto simp: vis_column_def)
  qed
qed

text \<open>Witness of C7: two baselines and three position angles on the uniform 2 by 2 cube.\<close>

theorem getVisibility_length_mismatch_witness:
  "length [0, 0 :: real] \<noteq> length [0, 0, 0 :: real] \<and> length [0, 0, 0 :: real] \<noteq> 1 \<and>
   0 < im_nwav (uniform_cube 2 2) \<and>
   (getVisibility (uniform_cube 2 2) [0, 0] [0, 0, 0] 1 = Inl IndexError \<or>
    getVisibility (uniform_cube 2 2) [0, 0] [0, 0, 0] 1 = Inl ValueError)"
proof -
  have n: "0 < im_nwav (uniform_cube 2 2)"
    by (simp add: loader_eval)
  show ?thesis
    using getVisibility_length_mismatch [of "[0, 0]" "[0, 0, 0]" "uniform_cube 2 2" 1] n by simp
qed

text \<open>
  Counterexample to C7 as stated: on the uniform 2 by 2 cube the call with the negative
  distance \<open>dpc = -1\<close> returns a result, and so does the call with two baselines and one
  position angle (numpy repeats the single angle for both baselines).
\<close>

theorem getVisibility_validation_counterexample:
  "\<not> isl (getVisibility (uniform_cube 2 2) [0] [0] (- 1)) \<and>
   \<not> isl (getVisibility (uniform_cube 2 2) [0, 0] [0] 1)"
  by (simp add: loader_eval visibility_eval)

section \<open>The invariant of a loaded cube\<close>

text \<open>
  The shape of an array of rank 3 and of rank 4, and the consistency of a cube's fields
  that the loader establishes: the coordinate axes are the pixel centres, the wavelength
  and frequency grids have \<^verbatim>\<open>nwav = nfreq\<close> entries, and the image has rank 3 with shape
  \<^verbatim>\<open>[nx, ny, nwav]\<close> without Stokes components and rank 4 with shape
  \<^verbatim>\<open>[nx, ny, 4, nwav]\<close> with them.
\<close>

definition shape3 :: "'a list list list \<Rightarrow> nat \<Rightarrow> nat \<Rightarrow> nat \<Rightarrow> bool" where
  "shape3 a n1 n2 n3 \<longleftrightarrow>
     length a = n1 \<and> list_all (\<lambda>p. length p = n2 \<and> list_all (\<lambda>r. length r = n3) p) a"

definition shape4 :: "'a list list list list \<Rightarrow> nat \<Rightarrow> nat \<Rightarrow> nat \<Rightarrow> nat \<Rightarrow> bool" where
  "shape4 a n1 n2 n3 n4 \<longleftrightarrow> length a = n1 \<and> list_all (\<lambda>p. shape3 p n2 n3 n4) a"

definition cube_ok :: "radmc3dImage \<Rightarrow> bool" where
  "cube_ok self \<longleftrightarrow>
     im_x self = pixel_axis (im_nx self) (im_sizepix_x self) \<and>
     im_y self = pixel_axis (im_ny self) (im_sizepix_y self) \<and>
     length (im_wav self) = im_nwav self \<and> length (im_freq self) = im_nfreq self \<and>
     im_nfreq self = im_nwav self \<and>
     (case im_image self of
        Img0 \<Rightarrow> False
      | Img3 a \<Rightarrow> \<not> im_stokes self \<and> shape3 a (im_nx self) (im_ny self) (im_nwav self)
      | Img4 a \<Rightarrow> im_stokes self \<and> shape4 a (im_nx self) (im_ny self) 4 (im_nwav self))"

text \<open>The total intensity of one wavelength channel: the sum of \<^verbatim>\<open>image[ix,iy,iwav]\<close>
  over the pixels (of the Stokes I component \<^verbatim>\<open>image[ix,iy,0,iwav]\<close> for a Stokes cube).\<close>

definition total_intensity :: "image \<Rightarrow> nat \<Rightarrow> real" where
  "total_intensity img iwav =
     (case img of
        Img0 \<Rightarrow> 0
      | Img3 a \<Rightarrow> sum_list (map (\<lambda>plane. sum_list (map (\<lambda>c. c ! iwav) plane)) a)
      | Img4 a \<Rightarrow> sum_list (map (\<lambda>plane. sum_list (map (\<lambda>c. c ! 0 ! iwav) plane)) a))"

text \<open>A Stokes image file with one wavelength and the Stokes vector (1, 0, 0, 0) in every
  pixel, and the cube the loader makes of it.\<close>

definition stokes_file :: "nat \<Rightarrow> nat \<Rightarrow> image_file" where
  "stokes_file nx ny =
     \<lparr>if_iformat = 3, if_nx = nx, if_ny = ny, if_nfreq = 1,
      if_sizepix_x = 10 ^ 12, if_sizepix_y = 10 ^ 12,
      if_wav = [1], if_pixels = replicate (nx * ny) [1, 0, 0, 0]\<rparr>"

definition stokes_cube :: "nat \<Rightarrow> nat \<Rightarrow> radmc3dImage" where
  "stokes_cube nx ny = projr (readImage (stokes_file nx ny))"

lemmas stokes_eval = stokes_file_def stokes_cube_def read_stokes_def

lemma readImage_cube_ok:
  assumes "readImage f = Inr self" and "if_iformat f = 1 \<or> if_iformat f = 3"
  shows "cube_ok self"
proof -
  obtain wav where
    w: "traverse (\<lambda>iwav. if iwav < length (if_wav f) then Inr (if_wav f ! iwav)
                          else Inl ValueError) [0..<if_nfreq f] = Inr wav"
    using assms(1) unfolding readImage_def Let_def by (auto simp: bindE_eq_Inr)
  have lw: "length wav = if_nfreq f"
    using traverse_Inr_length [OF w] by simp
  show ?thesis
    using assms lw unfolding readImage_def Let_def w bindE_Inr
    by (auto simp: bindE_eq_Inr cube_ok_def shape3_def shape4_def list_all_iff
        split: if_splits)
qed

subsection \<open>A baseline of length zero\<close>

lemma shape3_nth:
  "shape3 a n1 n2 n3 \<Longrightarrow> i < n1 \<Longrightarrow> length (a ! i) = n2 \<and> (\<forall>r\<in>set (a ! i). length r = n3)"
  by (auto simp: shape3_def list_all_iff)

lemma fourier_kernel_zero: "fourier_kernel 0 0 x m = replicate (length m) 1"
  by (simp add: fourier_kernel_def map_replicate_const)

lemma sum_list_times_one:
  "sum_list (map (\<lambda>(p, z). complex_of_real p * z) (map (\<lambda>x. (x, 1)) row)) = complex_of_real (sum_list row)"
  by (induction row) simp_all

lemma fourier_term_zero:
  assumes "shape3 a n1 n2 n3" and "il < n1" and "iwav < n3"
  shows "fourier_term (Img3 a) il iwav (replicate n2 1)
         = Inr (complex_of_real (sum_list (map (\<lambda>c. c ! iwav) (a ! il))))"
proof -
  have len: "length (a ! il) = n2" and rows: "\<forall>r\<in>set (a ! il). length r = n3"
    using shape3_nth [OF assms(1,2)] by simp_all
  have a: "item a il = Inr (a ! il)"
    using assms(1,2) by (simp add: shape3_def)
  have r: "traverse (\<lambda>c. item c iwav) (a ! il) = Inr (map (\<lambda>c. c ! iwav) (a ! il))"
    using rows assms(3) by (intro traverse_total) simp
  have b: "bcast (\<lambda>p z. Inr (complex_of_real p * z)) (map (\<lambda>c. c ! iwav) (a ! il)) (replicate n2 1)
           = Inr (map (\<lambda>(p, z). complex_of_real p * z) (map (\<lambda>x. (x, 1)) (map (\<lambda>c. c ! iwav) (a ! il))))"
    unfolding bcast_def using len
    by (simp add: zip_replicate2 traverse_total [where g = "\<lambda>(p, z). complex_of_real p * z"] split_def)
  show ?thesis
    unfolding fourier_term_def by (simp add: a r b sum_list_times_one del: map_map)
qed


lemma sum_list_of_real_scaled:
  "sum_list (map (\<lambda>i. complex_of_real (f i * c * d)) xs)
   = complex_of_real (sum_list (map f xs) * c * d)"
  by (induction xs) (simp_all add: algebra_simps)

lemma vis_sum_zero:
  assumes "shape3 a n1 n2 n3" and "length l = n1" and "length m = n2" and "iwav < n3"
  shows "vis_sum (Img3 a) l m dl dm 0 0 iwav
         = Inr (complex_of_real (total_intensity (Img3 a) iwav * dl * dm))"
proof -
  let ?row = "\<lambda>il. sum_list (map (\<lambda>c. c ! iwav) (a ! il))"
  have t: "traverse (\<lambda>il.
              bindE (fourier_term (Img3 a) il iwav (fourier_kernel 0 0 (l ! il) m)) (\<lambda>s.
              Inr (s * complex_of_real dl * complex_of_real dm))) [0..<length l]
           = Inr (map (\<lambda>il. complex_of_real (?row il * dl * dm)) [0..<length l])"
    using assms by (intro traverse_total) (simp add: fourier_kernel_zero fourier_term_zero)
  have n: "length a = n1"
    using assms(1) by (simp add: shape3_def)
  have "sum_list (map (\<lambda>il. complex_of_real (?row il * dl * dm)) [0..<length a])
        = complex_of_real (sum_list (map (\<lambda>il. ?row il) [0..<length a]) * dl * dm)"
    by (rule sum_list_of_real_scaled)
  also have "map (\<lambda>il. ?row il) [0..<length a] = map (\<lambda>plane. sum_list (map (\<lambda>c. c ! iwav) plane)) a"
    by (rule nth_equalityI) simp_all
  finally show ?thesis
    unfolding vis_sum_def using t n assms(2) by (simp add: total_intensity_def)
qed

lemma spatial_freq_zero:
  "iwav < length wav \<Longrightarrow> spatial_freq trig [0] [p] wav iwav = Inr [0]"
  by (simp add: spatial_freq_def bcast_def assign1_def)

lemma vis_of_positive_real:
  assumes "0 < F"
  shows "vis_amplitude (complex_of_real F) = F" and "vis_phase_of (complex_of_real F) = 0"
  using assms by (simp_all add: vis_amplitude_cmod vis_phase_of_def Let_def)


lemma sky_coord_step:
  assumes "2 \<le> n"
  shows "sky_coord dpc (pixel_axis n sizepix) ! 1 - sky_coord dpc (pixel_axis n sizepix) ! 0
         = sizepix / au_cm / dpc / 3600 / 180 * pi"
proof -
  have n: "1 < n" "0 < n" using assms by simp_all
  have d: "pixel_axis n sizepix ! 1 - pixel_axis n sizepix ! 0 = sizepix"
    using n by (simp add: pixel_axis_def algebra_simps)
  have "sky_coord dpc (pixel_axis n sizepix) ! 1 - sky_coord dpc (pixel_axis n sizepix) ! 0
        = (pixel_axis n sizepix ! 1 - pixel_axis n sizepix ! 0) / au_cm / dpc / 3600 / 180 * pi"
    using n by (simp add: sky_coord_def pixel_axis_def diff_divide_distrib left_diff_distrib)
  then show ?thesis
    by (simp only: d)
qed

text \<open>
  Claim C5, as the code has it. For every total intensity (non-Stokes) cube that satisfies
  the loader's invariant, has at least two pixels along each axis, positive pixel sizes and
  wavelengths, and a positive total intensity in every channel, \<^verbatim>\<open>getVisibility\<close> with
  the single baseline of length 0, any position angle \<open>p\<close> and a positive distance returns,
  and for every wavelength \<open>u = v = 0\<close>, the amplitude is the total flux (the sum of the
  image values over the pixels times \<open>dl\<close> times \<open>dm\<close>) and the phase is 0.
\<close>

theorem getVisibility_zero_baseline:
  assumes "cube_ok self" and "\<not> im_stokes self"
    and "2 \<le> im_nx self" and "2 \<le> im_ny self"
    and "0 < im_sizepix_x self" and "0 < im_sizepix_y self"
    and "\<forall>w\<in>set (im_wav self). 0 < w"
    and "0 < dpc"
    and "\<forall>iwav<im_nwav self. 0 < total_intensity (im_image self) iwav"
  shows "\<exists>res. getVisibility self [0] [p] dpc = Inr res \<and>
     (let l = sky_coord dpc (im_x self);
          m = sky_coord dpc (im_y self);
          dl = l ! 1 - l ! 0;
          dm = m ! 1 - m ! 0
      in \<forall>iwav<im_nwav self.
           vis_u res ! 0 ! iwav = 0 \<and> vis_v res ! 0 ! iwav = 0 \<and>
           vis_amp res ! 0 ! iwav = total_intensity (im_image self) iwav * dl * dm \<and>
           vis_phase res ! 0 ! iwav = 0)"
proof -
  define l where "l = sky_coord dpc (im_x self)"
  define m where "m = sky_coord dpc (im_y self)"
  define dl where "dl = l ! 1 - l ! 0"
  define dm where "dm = m ! 1 - m ! 0"
  define F where "F = (\<lambda>iwav. total_intensity (im_image self) iwav * dl * dm)"
  obtain a where img: "im_image self = Img3 a"
    and sh: "shape3 a (im_nx self) (im_ny self) (im_nwav self)"
    using assms(1,2) by (auto simp: cube_ok_def split: image.splits)
  have x: "im_x self = pixel_axis (im_nx self) (im_sizepix_x self)"
    and y: "im_y self = pixel_axis (im_ny self) (im_sizepix_y self)"
    and w: "length (im_wav self) = im_nwav self"
    using assms(1) by (simp_all add: cube_ok_def)
  have ll: "length l = im_nx self" and lm: "length m = im_ny self"
    by (simp_all add: l_def m_def sky_coord_def x y pixel_axis_def)
  have c: "0 < au_cm"
    by (simp add: au_cm_def)
  have dl: "dl = im_sizepix_x self / au_cm / dpc / 3600 / 180 * pi"
    unfolding dl_def l_def x by (rule sky_coord_step [OF assms(3)])
  have dm: "dm = im_sizepix_y self / au_cm / dpc / 3600 / 180 * pi"
    unfolding dm_def m_def y by (rule sky_coord_step [OF assms(4)])
  have pos: "0 < dl" "0 < dm"
    using assms(5,6,8) c by (simp_all add: dl dm)
  have Fpos: "0 < F iwav" if "iwav < im_nwav self" for iwav
    using assms(9) that pos by (simp add: F_def)
  have col: "vis_column self [0] [p] l m dl dm iwav = Inr ([0], [0], [complex_of_real (F iwav)])"
    if "iwav < im_nwav self" for iwav
    using that w vis_sum_zero [OF sh ll lm that, of dl dm]
    by (simp add: vis_column_def spatial_freq_zero img F_def)
  have t: "traverse (vis_column self [0] [p] l m dl dm) [0..<im_nwav self]
           = Inr (map (\<lambda>iwav. ([0], [0], [complex_of_real (F iwav)])) [0..<im_nwav self])"
    by (intro traverse_total) (simp add: col)
  have i: "item l 1 = Inr (l ! 1)" "item l 0 = Inr (l ! 0)"
    "item m 1 = Inr (m ! 1)" "item m 0 = Inr (m ! 0)"
    using ll lm assms(3,4) by (auto simp: item_def)
  let ?res = "projr (getVisibility self [0] [p] dpc)"
  have r: "getVisibility self [0] [p] dpc = Inr ?res"
    unfolding getVisibility_def Let_def l_def [symmetric] m_def [symmetric] i bindE_Inr
      dl_def [symmetric] dm_def [symmetric] t
    by simp
  have fields: "vis_u ?res ! 0 ! iwav = 0" "vis_v ?res ! 0 ! iwav = 0"
    "vis_amp ?res ! 0 ! iwav = F iwav" "vis_phase ?res ! 0 ! iwav = 0"
    if "iwav < im_nwav self" for iwav
    unfolding getVisibility_def Let_def l_def [symmetric] m_def [symmetric] i bindE_Inr
      dl_def [symmetric] dm_def [symmetric] t
    using that Fpos [OF that] by (simp_all add: grid_nth vis_of_positive_real)
  show ?thesis
    using r fields
    unfolding Let_def l_def [symmetric] m_def [symmetric] dl_def [symmetric] dm_def [symmetric]
      F_def
    by (intro exI [of _ ?res]) simp
qed

text \<open>Witness of C5: the uniform 2 by 2 cube at 1 pc, position angle 30.\<close>

theorem getVisibility_zero_baseline_witness:
  "cube_ok (uniform_cube 2 2) \<and> \<not> im_stokes (uniform_cube 2 2) \<and>
   2 \<le> im_nx (uniform_cube 2 2) \<and> 2 \<le> im_ny (uniform_cube 2 2) \<and>
   0 < im_sizepix_x (uniform_cube 2 2) \<and> 0 < im_sizepix_y (uniform_cube 2 2) \<and>
   list_all (\<lambda>w. 0 < w) (im_wav (uniform_cube 2 2)) \<and> (0::real) < 1 \<and>
   0 < total_intensity (im_image (uniform_cube 2 2)) 0 \<and>
   (\<exists>res. getVisibility (uniform_cube 2 2) [0] [30] 1 = Inr res \<and>
     (let l = sky_coord 1 (im_x (uniform_cube 2 2));
          m = sky_coord 1 (im_y (uniform_cube 2 2));
          dl = l ! 1 - l ! 0;
          dm = m ! 1 - m ! 0
      in vis_u res ! 0 ! 0 = 0 \<and> vis_v res ! 0 ! 0 = 0 \<and>
         vis_amp res ! 0 ! 0 = total_intensity (im_image (uniform_cube 2 2)) 0 * dl * dm \<and>
         vis_phase res ! 0 ! 0 = 0))"
proof -
  have h: "cube_ok (uniform_cube 2 2)" "\<not> im_stokes (uniform_cube 2 2)"
    "2 \<le> im_nx (uniform_cube 2 2)" "2 \<le> im_ny (uniform_cube 2 2)"
    "0 < im_sizepix_x (uniform_cube 2 2)" "0 < im_sizepix_y (uniform_cube 2 2)"
    "\<forall>w\<in>set (im_wav (uniform_cube 2 2)). 0 < w"
    "\<forall>iwav<im_nwav (uniform_cube 2 2). 0 < total_intensity (im_image (uniform_cube 2 2)) iwav"
    by (simp_all add: cube_ok_def loader_eval shape3_def total_intensity_def)
  have n: "im_nwav (uniform_cube 2 2) = 1"
    by (simp add: loader_eval)
  show ?thesis
    using getVisibility_zero_baseline [OF h(1-7) _ h(8), of 1 30] h
    unfolding n Let_def
    by (auto simp: list_all_iff)
qed

text \<open>
  Counterexample to C5 as stated. On the uniform cube of a single pixel the call raises
  \<^verbatim>\<open>IndexError\<close> (\<^verbatim>\<open>dl = l[1]-l[0]\<close> needs two pixels). On the Stokes cube of 2 by 2
  pixels \<^verbatim>\<open>self.image[il,:,iwav]\<close> is the rank 2 slice \<^verbatim>\<open>[ny, nwav]\<close> of Stokes
  component \<^verbatim>\<open>iwav\<close>, its product with the vector over \<^verbatim>\<open>m\<close> broadcasts to
  \<^verbatim>\<open>[ny, ny]\<close>, and the amplitude is twice the total flux.
\<close>

theorem getVisibility_zero_baseline_counterexample:
  "0 < total_intensity (im_image (uniform_cube 1 1)) 0 \<and>
   getVisibility (uniform_cube 1 1) [0] [0] 1 = Inl IndexError \<and>
   0 < total_intensity (im_image (stokes_cube 2 2)) 0 \<and>
   vis_amp (projr (getVisibility (stokes_cube 2 2) [0] [0] 1)) ! 0 ! 0
     = 2 * (total_intensity (im_image (stokes_cube 2 2)) 0
        * (sky_coord 1 (im_x (stokes_cube 2 2)) ! 1 - sky_coord 1 (im_x (stokes_cube 2 2)) ! 0)
        * (sky_coord 1 (im_y (stokes_cube 2 2)) ! 1 - sky_coord 1 (im_y (stokes_cube 2 2)) ! 0)) \<and>
   vis_amp (projr (getVisibility (stokes_cube 2 2) [0] [0] 1)) ! 0 ! 0 \<noteq> 0"
  by (simp add: loader_eval visibility_eval stokes_eval total_intensity_def
      vis_amplitude_cmod norm_mult norm_divide)

section \<open>Closure phases: \<^verbatim>\<open>getClosurePhase\<close>\<close>

text \<open>
  A baseline triangle: the docstring asks for \<^verbatim>\<open>bl\<close> and \<^verbatim>\<open>pa\<close> of dimension
  \<^verbatim>\<open>[N,3]\<close>, which the argument type fixes here.
\<close>

type_synonym triangle = "real \<times> real \<times> real"

definition triangle_row :: "triangle \<Rightarrow> real list" where
  "triangle_row t = (case t of (a, b, c) \<Rightarrow> [a, b, c])"

text \<open>The dictionary \<^verbatim>\<open>res\<close> that \<^verbatim>\<open>getClosurePhase\<close> returns; the arrays of rank 3 are
  indexed \<^verbatim>\<open>[itri, ibl, iwav]\<close> and \<^verbatim>\<open>cp\<close> is indexed \<^verbatim>\<open>[itri, iwav]\<close>.\<close>

record closure_phases =
  cp_bl :: "triangle list"
  cp_pa :: "triangle list"
  cp_ntri :: nat
  cp_nbl :: nat
  cp_nwav :: nat
  cp_wav :: "real list"
  cp_u :: "real list list list"
  cp_v :: "real list list list"
  cp_vis :: "complex list list list"
  cp_amp :: "real list list list"
  cp_phase :: "real list list list"
  cp_cp :: "real list list"

subsection \<open>Attribute lookup\<close>

text \<open>
  \<^verbatim>\<open>getClosurePhase\<close> calls \<^verbatim>\<open>self.get_visibility(bl=..., pa=..., dpc=...)\<close>. Python
  resolves the name when the call runs, in the attributes of the object and of its class,
  and raises \<^verbatim>\<open>AttributeError\<close> for a name that is not there. What an attribute does
  when called with the keywords \<^verbatim>\<open>bl\<close>, \<^verbatim>\<open>pa\<close>, \<^verbatim>\<open>dpc\<close> and a one-dimensional
  \<^verbatim>\<open>bl\<close>: \<^verbatim>\<open>getVisibility\<close> computes; \<^verbatim>\<open>getClosurePhase\<close> raises \<^verbatim>\<open>IndexError\<close>
  (it indexes \<^verbatim>\<open>res['bl'][itri,:]\<close>, or a coordinate axis that is too short); every
  other method takes no such keyword and no data attribute is callable
  (\<^verbatim>\<open>TypeError\<close>).
\<close>

datatype attr = GetClosurePhase | GetVisibility | OtherAttr

text \<open>The attributes of an object of the class \<^verbatim>\<open>radmc3dImage\<close> as the module defines
  it: its eight methods and the seventeen data attributes of \<^verbatim>\<open>__init__\<close>.\<close>

definition radmc3dImage_attrs :: "(string \<times> attr) list" where
  "radmc3dImage_attrs =
     [(''__init__'', OtherAttr), (''getClosurePhase'', GetClosurePhase),
      (''getVisibility'', GetVisibility), (''writeFits'', OtherAttr),
      (''plotMomentMap'', OtherAttr), (''getMomentMap'', OtherAttr),
      (''readImage'', OtherAttr), (''imConv'', OtherAttr),
      (''image'', OtherAttr), (''imageJyppix'', OtherAttr), (''x'', OtherAttr),
      (''y'', OtherAttr), (''nx'', OtherAttr), (''ny'', OtherAttr),
      (''sizepix_x'', OtherAttr), (''sizepix_y'', OtherAttr), (''nfreq'', OtherAttr),
      (''freq'', OtherAttr), (''nwav'', OtherAttr), (''wav'', OtherAttr),
      (''stokes'', OtherAttr), (''psf'', OtherAttr), (''fwhm'', OtherAttr),
      (''pa'', OtherAttr), (''dpc'', OtherAttr)]"

definition getattr :: "(string \<times> attr) list \<Rightarrow> string \<Rightarrow> error + attr" where
  "getattr attrs name =
     (case map_of attrs name of None \<Rightarrow> Inl AttributeError | Some a \<Rightarrow> Inr a)"

definition call_bl_pa_dpc ::
  "attr \<Rightarrow> radmc3dImage \<Rightarrow> real list \<Rightarrow> real list \<Rightarrow> real \<Rightarrow> error + visibility" where
  "call_bl_pa_dpc a self bl pa dpc =
     (case a of
        GetVisibility \<Rightarrow> getVisibility self bl pa dpc
      | GetClosurePhase \<Rightarrow> Inl IndexError
      | OtherAttr \<Rightarrow> Inl TypeError)"

subsection \<open>The closure phase of one triangle\<close>

text \<open>Python's and numpy's \<^verbatim>\<open>a % b\<close> on floats, for \<open>b > 0\<close>: the remainder of the floor
  division.\<close>

definition py_mod :: "real \<Rightarrow> real \<Rightarrow> real" where
  "py_mod a b = a - b * of_int \<lfloor>a / b\<rfloor>"

text \<open>
  The lines
  \<^verbatim>\<open>res['cp'][itri,:] = (dum['phase'].sum(0) / pi * 180.)%360.\<close>,
  \<^verbatim>\<open>ii = res['cp'][itri,:]>180.\<close> and
  \<^verbatim>\<open>res['cp'][itri,ii] = res['cp'][itri,ii]-360.\<close>: for every wavelength the phases of
  the baselines are summed (\<^verbatim>\<open>sum(0)\<close> sums along the baseline axis), converted to
  degrees and reduced modulo 360, and 360 is subtracted from the entries above 180.
\<close>

definition closure_phase :: "real list list \<Rightarrow> nat \<Rightarrow> real list" where
  "closure_phase phase nwav =
     map (\<lambda>iwav. let cp = py_mod (sum_list (map (\<lambda>row. row ! iwav) phase) / pi * 180) 360
                 in if cp > 180 then cp - 360 else cp) [0..<nwav]"

text \<open>
  \<^verbatim>\<open>getClosurePhase\<close> for an object whose attributes are \<open>attrs\<close>. The visibility arrays
  of a triangle have the shape \<^verbatim>\<open>[3, nwav]\<close> of the slots they are assigned to. Every
  pass of the loop over \<^verbatim>\<open>itri\<close> writes its own slots, so the result arrays are the
  list of the passes' results.
\<close>

definition getClosurePhase_with ::
  "(string \<times> attr) list \<Rightarrow> radmc3dImage \<Rightarrow> triangle list \<Rightarrow> triangle list \<Rightarrow> real
   \<Rightarrow> error + closure_phases" where
  "getClosurePhase_with attrs self bl pa dpc =
     (let ntri = length bl;
          nwav = im_nwav self;
          l = sky_coord dpc (im_x self);
          m = sky_coord dpc (im_y self)
      in bindE (item l 1) (\<lambda>l1. bindE (item l 0) (\<lambda>l0.
         bindE (item m 1) (\<lambda>m1. bindE (item m 0) (\<lambda>m0.
         bindE (traverse (\<lambda>itri.
                  bindE (getattr attrs ''get_visibility'') (\<lambda>method.
                  bindE (item pa itri) (\<lambda>pa_itri.
                  call_bl_pa_dpc method self (triangle_row (bl ! itri)) (triangle_row pa_itri) dpc)))
                [0..<ntri]) (\<lambda>dums.
         Inr \<lparr>cp_bl = bl, cp_pa = pa, cp_ntri = ntri, cp_nbl = 3, cp_nwav = nwav,
              cp_wav = im_wav self,
              cp_u = map vis_u dums, cp_v = map vis_v dums, cp_vis = map vis_vis dums,
              cp_amp = map vis_amp dums, cp_phase = map vis_phase dums,
              cp_cp = map (\<lambda>dum. closure_phase (vis_phase dum) nwav) dums\<rparr>))))))"

text \<open>The method of the class: the attributes are those the module defines.\<close>

definition getClosurePhase ::
  "radmc3dImage \<Rightarrow> triangle list \<Rightarrow> triangle list \<Rightarrow> real \<Rightarrow> error + closure_phases" where
  "getClosurePhase = getClosurePhase_with radmc3dImage_attrs"

text \<open>An object that also has an attribute \<^verbatim>\<open>get_visibility\<close>, bound to the method
  \<^verbatim>\<open>getVisibility\<close> (as an assignment to the class or a subclass would make it).\<close>

definition patched_attrs :: "(string \<times> attr) list" where
  "patched_attrs = (''get_visibility'', GetVisibility) # radmc3dImage_attrs"

subsection \<open>The call on the class as it is\<close>

text \<open>
  Claim C1. On the cube with \<open>nx = ny = 4\<close>, one wavelength, pixels of \<^verbatim>\<open>1e12\<close> cm and
  the value 1.0 everywhere, \<^verbatim>\<open>getClosurePhase\<close> with the single degenerate triangle of
  three baselines of length 0 does not return closure phases: the first pass of the loop
  looks up \<^verbatim>\<open>self.get_visibility\<close>, which the class does not define (its method is
  \<^verbatim>\<open>getVisibility\<close>), and raises \<^verbatim>\<open>AttributeError\<close>.
\<close>

theorem getClosurePhase_degenerate_triangle:
  "getClosurePhase (uniform_cube 4 4) [(0, 0, 0)] [(0, 0, 0)] 1 = Inl AttributeError"
  by (simp add: getClosurePhase_def getClosurePhase_with_def getattr_def radmc3dImage_attrs_def
      sky_coord_def loader_eval)

text \<open>With the name bound to \<^verbatim>\<open>getVisibility\<close> the same call gives the closure phase
  0 degrees that the claim states.\<close>

lemma getClosurePhase_patched_degenerate:
  "cp_cp (projr (getClosurePhase_with patched_attrs (uniform_cube 4 4) [(0, 0, 0)] [(0, 0, 0)] 1)) = [[0]]"
  by (simp add: getClosurePhase_with_def getattr_def patched_attrs_def call_bl_pa_dpc_def
      triangle_row_def loader_eval visibility_eval closure_phase_def py_mod_def
      vis_phase_of_def vis_amplitude_cmod norm_mult norm_divide)

subsection \<open>The wrap into the interval from -180 to 180 degrees\<close>

lemma py_mod_range: "0 \<le> py_mod a 360 \<and> py_mod a 360 < 360"
proof -
  have "of_int \<lfloor>a / 360\<rfloor> \<le> a / 360" "a / 360 < of_int \<lfloor>a / 360\<rfloor> + 1"
    by linarith+
  then show ?thesis
    unfolding py_mod_def by (simp add: field_simps)
qed

lemma closure_phase_nth:
  "iwav < nwav \<Longrightarrow>
   closure_phase phase nwav ! iwav =
     (let cp = py_mod (sum_list (map (\<lambda>row. row ! iwav) phase) / pi * 180) 360
      in if cp > 180 then cp - 360 else cp)"
  by (simp add: closure_phase_def)

lemma closure_phase_200: "closure_phase [[100 / 180 * pi], [60 / 180 * pi], [40 / 180 * pi]] 1 = [- 160]"
  by (simp add: closure_phase_def py_mod_def)

lemma closure_phase_180: "closure_phase [[pi / 2], [pi / 3], [pi / 6]] 1 = [180]"
  by (simp add: closure_phase_def py_mod_def)


lemma sum_list_three:
  fixes f :: "'a \<Rightarrow> real"
  assumes "length xs = 3"
  shows "sum_list (map f xs) = f (xs ! 0) + f (xs ! 1) + f (xs ! 2)"
proof -
  obtain a b c where "xs = [a, b, c]"
    using assms by (auto simp: numeral_3_eq_3 length_Suc_conv)
  then show ?thesis
    by simp
qed

text \<open>
  Lines 157 to 160 on their own, for any array \<^verbatim>\<open>dum['phase']\<close> of three rows: the
  entry for wavelength \<open>iwav\<close> is the sum of the three phases in degrees, taken modulo
  360, less 360 when that exceeds 180, and lies in the interval \<open>(-180, 180]\<close>.
\<close>

lemma closure_phase_wrap:
  assumes "length phase = 3" and "iwav < nwav"
  shows "(let s = (phase ! 0 ! iwav + phase ! 1 ! iwav + phase ! 2 ! iwav) / pi * 180;
              c = closure_phase phase nwav ! iwav
          in c = (if py_mod s 360 > 180 then py_mod s 360 - 360 else py_mod s 360) \<and>
             - 180 < c \<and> c \<le> 180)"
proof -
  define s where "s = (phase ! 0 ! iwav + phase ! 1 ! iwav + phase ! 2 ! iwav) / pi * 180"
  define w where "w = (if py_mod s 360 > 180 then py_mod s 360 - 360 else py_mod s 360)"
  have c: "closure_phase phase nwav ! iwav = w"
    using assms(2) sum_list_three [OF assms(1), of "\<lambda>row. row ! iwav"]
    by (simp add: closure_phase_nth Let_def w_def s_def)
  have r: "- 180 < w \<and> w \<le> 180"
    using py_mod_range [of s] unfolding w_def by (cases "py_mod s 360 > 180") simp_all
  show ?thesis
    unfolding Let_def s_def [symmetric] c using r by (simp add: w_def)
qed

subsection \<open>No triangle is processed\<close>

text \<open>
  Claim C2. The wrap of lines 157 to 160 is never reached on the class as it is. For every
  cube, every distance and every non-empty list of triangles, \<^verbatim>\<open>getClosurePhase\<close>
  returns nothing: with fewer than two pixels along an axis the pixel steps of lines 145 and
  146 raise \<^verbatim>\<open>IndexError\<close>, and otherwise the first pass of the loop raises
  \<^verbatim>\<open>AttributeError\<close> at line 151, where \<^verbatim>\<open>self.get_visibility\<close> is looked up (the
  method of the class is \<^verbatim>\<open>getVisibility\<close>); this is the defect of claim C1. In
  particular the call with the triangle of baselines 10, 20 and 30 m at position angles 0,
  60 and 120 degrees on the uniform cube of 2 by 2 pixels at 140 pc raises
  \<^verbatim>\<open>AttributeError\<close>, and no closure phase, wrapped or not, is produced.
\<close>

theorem getClosurePhase_no_triangle:
  "getClosurePhase self (t # bl) pa dpc
     = Inl (if 2 \<le> length (im_x self) \<and> 2 \<le> length (im_y self)
            then AttributeError else IndexError) \<and>
   getClosurePhase (uniform_cube 2 2) [(10, 20, 30)] [(0, 60, 120)] 140 = Inl AttributeError"
proof
  have u: "[0..<length (t # bl)] = 0 # [Suc 0..<length (t # bl)]"
    by (rule upt_conv_Cons) simp
  show "getClosurePhase self (t # bl) pa dpc
     = Inl (if 2 \<le> length (im_x self) \<and> 2 \<le> length (im_y self)
            then AttributeError else IndexError)"
    unfolding getClosurePhase_def getClosurePhase_with_def Let_def u
    by (simp add: getattr_def radmc3dImage_attrs_def sky_coord_def item_def)
  show "getClosurePhase (uniform_cube 2 2) [(10, 20, 30)] [(0, 60, 120)] 140 = Inl AttributeError"
    by (simp add: getClosurePhase_def getClosurePhase_with_def getattr_def radmc3dImage_attrs_def
        sky_coord_def loader_eval)
qed

section \<open>Convolution with the beam: \<^verbatim>\<open>imConv\<close>\<close>

subsection \<open>numpy's discrete Fourier transforms\<close>

text \<open>
  The two-dimensional transform of numpy's documentation,
  \<open>A[k,l] = \<Sum>i j. a[i,j] * exp (sg * 2 * pi * \<i> * (k * i / n1 + l * j / n2))\<close>, with
  \<open>sg = -1\<close> for \<^verbatim>\<open>fft2\<close> and \<open>sg = 1\<close> and the factor \<open>1 / (n1 * n2)\<close> for
  \<^verbatim>\<open>ifft2\<close>. An axis of length 0 raises \<^verbatim>\<open>ValueError\<close> (invalid number of data points).
\<close>

definition dft2 :: "real \<Rightarrow> complex list list \<Rightarrow> complex list list" where
  "dft2 sg a =
     (let n1 = length a; n2 = length (hd a)
      in map (\<lambda>k. map (\<lambda>l.
           sum_list (map (\<lambda>i. sum_list (map (\<lambda>j.
             a ! i ! j * cis (sg * 2 * pi * (real k * real i / real n1 + real l * real j / real n2)))
             [0..<n2])) [0..<n1]))
           [0..<n2]) [0..<n1])"

definition fft2 :: "complex list list \<Rightarrow> error + complex list list" where
  "fft2 a = (if a = [] \<or> hd a = [] then Inl ValueError else Inr (dft2 (- 1) a))"

definition ifft2 :: "complex list list \<Rightarrow> error + complex list list" where
  "ifft2 a =
     (if a = [] \<or> hd a = [] then Inl ValueError
      else Inr (map (map (\<lambda>z. z / of_nat (length a * length (hd a)))) (dft2 1 a)))"

text \<open>\<^verbatim>\<open>fft.ifftshift\<close> rolls every axis of length \<open>n\<close> by \<open>-(n div 2)\<close>: entry \<open>i\<close> of
  the result is entry \<open>(i + n div 2) mod n\<close> of the argument.\<close>

definition ifftshift2 :: "'a list list \<Rightarrow> 'a list list" where
  "ifftshift2 a = rotate (length a div 2) (map (\<lambda>row. rotate (length row div 2) row) a)"

definition ifftshift3 :: "'a list list list \<Rightarrow> 'a list list list" where
  "ifftshift3 a = rotate (length a div 2) (map ifftshift2 a)"

subsection \<open>Slices of the image and assignment into the result\<close>

text \<open>The product \<^verbatim>\<open>f_psf * f_imag\<close> of two arrays of rank 2.\<close>

definition bmul2 :: "complex list list \<Rightarrow> complex list list \<Rightarrow> error + complex list list" where
  "bmul2 = bcast (bcast (\<lambda>x y. Inr (x * y)))"

text \<open>An assignment into a slot of shape \<^verbatim>\<open>[n1, n2]\<close>: a value of rank 2 is broadcast
  along both axes; a value of rank 3 is accepted only with a leading axis of length 1.\<close>

definition assign2 :: "nat \<Rightarrow> nat \<Rightarrow> 'a list list \<Rightarrow> error + 'a list list" where
  "assign2 n1 n2 v = bindE (traverse (assign1 n2) v) (assign1 n1)"

definition assign3_into2 :: "nat \<Rightarrow> nat \<Rightarrow> 'a list list list \<Rightarrow> error + 'a list list" where
  "assign3_into2 n1 n2 v = (if length v = 1 then assign2 n1 n2 (hd v) else Inl ValueError)"

text \<open>
  \<^verbatim>\<open>abs(fft.ifftshift(fft.ifft2(f_psf * fft.fft2(imag))))\<close> assigned to a plane
  \<^verbatim>\<open>[nx, ny]\<close> of \<^verbatim>\<open>cimage\<close>, for a slice \<^verbatim>\<open>imag\<close> of rank 2.
\<close>

definition convolve_plane ::
  "nat \<Rightarrow> nat \<Rightarrow> complex list list \<Rightarrow> real list list \<Rightarrow> error + real list list" where
  "convolve_plane nx ny f_psf imag =
     bindE (fft2 (map (map complex_of_real) imag)) (\<lambda>f_imag.
     bindE (bmul2 f_psf f_imag) (\<lambda>f_cimag.
     bindE (ifft2 f_cimag) (\<lambda>c.
     assign2 nx ny (map (map cmod) (ifftshift2 c)))))"

text \<open>
  The same expression for a slice of rank 3: the transforms run over the last two axes
  for every index of the first, the kernel is broadcast along the first axis of the slice,
  and the shift rolls all three axes.
\<close>

definition convolve_block ::
  "nat \<Rightarrow> nat \<Rightarrow> complex list list \<Rightarrow> real list list list \<Rightarrow> error + real list list" where
  "convolve_block nx ny f_psf imag =
     bindE (traverse (\<lambda>plane. fft2 (map (map complex_of_real) plane)) imag) (\<lambda>f_imag.
     bindE (traverse (bmul2 f_psf) f_imag) (\<lambda>f_cimag.
     bindE (traverse ifft2 f_cimag) (\<lambda>c.
     assign3_into2 nx ny (map (map (map cmod)) (ifftshift3 c)))))"

text \<open>\<^verbatim>\<open>a[:,:,k]\<close> on an array of rank 3 (a plane) and of rank 4 (a block of rank 3),
  and \<^verbatim>\<open>a[:,:,k,f]\<close> on an array of rank 4.\<close>

definition plane3 :: "'a list list list \<Rightarrow> nat \<Rightarrow> error + 'a list list" where
  "plane3 a k = traverse (traverse (\<lambda>c. item c k)) a"

definition plane4 :: "'a list list list list \<Rightarrow> nat \<Rightarrow> nat \<Rightarrow> error + 'a list list" where
  "plane4 a k f = traverse (traverse (\<lambda>c. bindE (item c k) (\<lambda>d. item d f))) a"

text \<open>The array \<^verbatim>\<open>cimage\<close> of shape \<^verbatim>\<open>[nx, ny, n]\<close> whose plane \<open>k\<close> is
  \<open>planes ! k\<close>, and the one of shape \<^verbatim>\<open>[nx, ny, 4, nfreq]\<close> whose plane
  \<^verbatim>\<open>[:,:,istokes,ifreq]\<close> is \<open>planes ! ifreq ! istokes\<close>.\<close>

definition stack3 :: "nat \<Rightarrow> nat \<Rightarrow> nat \<Rightarrow> 'a list list list \<Rightarrow> 'a list list list" where
  "stack3 nx ny n planes =
     map (\<lambda>ix. map (\<lambda>iy. map (\<lambda>k. planes ! k ! ix ! iy) [0..<n]) [0..<ny]) [0..<nx]"

definition stack4 ::
  "nat \<Rightarrow> nat \<Rightarrow> nat \<Rightarrow> 'a list list list list \<Rightarrow> 'a list list list list" where
  "stack4 nx ny nfreq planes =
     map (\<lambda>ix. map (\<lambda>iy. map (\<lambda>istokes. map (\<lambda>ifreq. planes ! ifreq ! istokes ! ix ! iy)
       [0..<nfreq]) [0..<4]) [0..<ny]) [0..<nx]"

subsection \<open>The method\<close>

text \<open>
  The three branches that build \<^verbatim>\<open>cimage\<close>. The branch is chosen by the attributes
  \<^verbatim>\<open>stokes\<close> and \<^verbatim>\<open>nfreq\<close>; what the index expression of the branch yields depends on
  the rank of \<^verbatim>\<open>self.image\<close>.
\<close>

definition imConv_cimage :: "radmc3dImage \<Rightarrow> complex list list \<Rightarrow> error + image" where
  "imConv_cimage self f_psf =
     (let nx = im_nx self; ny = im_ny self; nfreq = im_nfreq self
      in if im_stokes self then
           if nfreq = 1 then
             bindE (traverse (\<lambda>istokes.
                      case im_image self of
                        Img0 \<Rightarrow> Inl TypeError
                      | Img3 a \<Rightarrow> bindE (plane3 a istokes) (convolve_plane nx ny f_psf)
                      | Img4 a \<Rightarrow> bindE (plane3 a istokes) (convolve_block nx ny f_psf))
                    [0..<4]) (\<lambda>planes.
             Inr (Img3 (stack3 nx ny 4 planes)))
           else
             bindE (traverse (\<lambda>ifreq. traverse (\<lambda>istokes.
                      case im_image self of
                        Img0 \<Rightarrow> Inl TypeError
                      | Img3 a \<Rightarrow> Inl IndexError
                      | Img4 a \<Rightarrow> bindE (plane4 a istokes ifreq) (convolve_plane nx ny f_psf))
                    [0..<4]) [0..<nfreq]) (\<lambda>planes.
             Inr (Img4 (stack4 nx ny nfreq planes)))
         else
           bindE (traverse (\<lambda>ifreq.
                    case im_image self of
                      Img0 \<Rightarrow> Inl TypeError
                    | Img3 a \<Rightarrow> bindE (plane3 a ifreq) (convolve_plane nx ny f_psf)
                    | Img4 a \<Rightarrow> bindE (plane3 a ifreq) (convolve_block nx ny f_psf))
                  [0..<nfreq]) (\<lambda>planes.
           Inr (Img3 (stack3 nx ny nfreq planes))))"

text \<open>\<^verbatim>\<open>res.sizepix_x * res.sizepix_y / (dpc*pc)**2./ (fwhm[0] * fwhm[1] * pi / (4.*log(2.)))\<close>\<close>

definition imConv_conv :: "radmc3dImage \<Rightarrow> real \<Rightarrow> real \<Rightarrow> real \<Rightarrow> real" where
  "imConv_conv self dpc fwhm0 fwhm1 =
     im_sizepix_x self * im_sizepix_y self / (dpc * pc_cm)\<^sup>2 / (fwhm0 * fwhm1 * pi / (4 * ln 2))"

text \<open>
  \<^verbatim>\<open>imConv(self, fwhm, pa, dpc)\<close>. The pixel scale
  \<^verbatim>\<open>dx = self.sizepix_x / au / dpc\<close> is a quotient of Python floats (the loader stores
  \<^verbatim>\<open>float(dum[0])\<close>), so a distance of 0 raises \<^verbatim>\<open>ZeroDivisionError\<close> before
  anything else is computed. The result is a deep copy of \<^verbatim>\<open>self\<close>, here the value
  itself, with the six attributes assigned after the copy.
\<close>

definition imConv :: "radmc3dImage \<Rightarrow> real list \<Rightarrow> real \<Rightarrow> real \<Rightarrow> error + radmc3dImage" where
  "imConv self fwhm pa dpc =
     (if dpc = 0 then Inl ZeroDivisionError
      else
      let dx = im_sizepix_x self / au_cm / dpc;
          dy = im_sizepix_y self / au_cm / dpc
      in bindE (getPSF (im_nx self) (im_ny self) fwhm pa (Some [dx, dy])) (\<lambda>dum.
         let psf = psf_psf dum
         in bindE (fft2 (map (map complex_of_real) psf)) (\<lambda>f_psf.
            bindE (imConv_cimage self f_psf) (\<lambda>cimage.
            bindE (item fwhm 0) (\<lambda>fwhm0. bindE (item fwhm 1) (\<lambda>fwhm1.
            let conv = imConv_conv self dpc fwhm0 fwhm1;
                image = scale_image conv cimage
            in Inr (self\<lparr>im_image := image,
                        im_imageJyppix := scale_image (10 ^ 23) image,
                        im_psf := Some psf, im_fwhm := fwhm, im_pa := pa, im_dpc := dpc\<rparr>)))))))"

subsection \<open>Shapes through the convolution\<close>

text \<open>The shape of an array of rank 2.\<close>

definition shape2 :: "'a list list \<Rightarrow> nat \<Rightarrow> nat \<Rightarrow> bool" where
  "shape2 a n1 n2 \<longleftrightarrow> length a = n1 \<and> list_all (\<lambda>r. length r = n2) a"

lemma shape2_hd: "shape2 a n1 n2 \<Longrightarrow> 0 < n1 \<Longrightarrow> a \<noteq> [] \<and> length (hd a) = n2"
  by (cases a) (auto simp: shape2_def)

lemma shape2_map: "shape2 a n1 n2 \<Longrightarrow> shape2 (map (map f) a) n1 n2"
  by (auto simp: shape2_def list_all_iff)

lemma shape2_dft2: "shape2 (dft2 sg a) (length a) (length (hd a))"
  by (simp add: shape2_def dft2_def Let_def list_all_iff)

lemma fft2_total:
  assumes "shape2 a n1 n2" and "0 < n1" and "0 < n2"
  shows "\<exists>b. fft2 a = Inr b \<and> shape2 b n1 n2"
proof -
  have h: "a \<noteq> []" "length (hd a) = n2" "length a = n1"
    using shape2_hd [OF assms(1,2)] assms(1) by (simp_all add: shape2_def)
  then have "hd a \<noteq> []"
    using assms(3) by auto
  then show ?thesis
    using h shape2_dft2 [of "- 1" a] by (simp add: fft2_def)
qed

lemma ifft2_total:
  assumes "shape2 a n1 n2" and "0 < n1" and "0 < n2"
  shows "\<exists>b. ifft2 a = Inr b \<and> shape2 b n1 n2"
proof -
  have h: "a \<noteq> []" "length (hd a) = n2" "length a = n1"
    using shape2_hd [OF assms(1,2)] assms(1) by (simp_all add: shape2_def)
  then have "hd a \<noteq> []"
    using assms(3) by auto
  then show ?thesis
    using h shape2_map [OF shape2_dft2 [of 1 a]] by (simp add: ifft2_def)
qed

lemma bcast_same_length:
  assumes "length xs = length ys" and "\<And>x y. (x, y) \<in> set (zip xs ys) \<Longrightarrow> f x y = Inr (g x y)"
  shows "bcast f xs ys = Inr (map (\<lambda>(x, y). g x y) (zip xs ys))"
  unfolding bcast_def using assms by (simp add: traverse_total [where g = "\<lambda>(x, y). g x y"] split_def)

lemma bmul2_total:
  assumes "shape2 a n1 n2" and "shape2 b n1 n2"
  shows "\<exists>c. bmul2 a b = Inr c \<and> shape2 c n1 n2"
proof -
  have rows: "bcast (\<lambda>x y. Inr (x * y)) r s = Inr (map (\<lambda>(x, y). x * y) (zip r s))"
    if "(r, s) \<in> set (zip a b)" for r s :: "complex list"
  proof -
    have "r \<in> set a" "s \<in> set b"
      using that by (auto dest: set_zip_leftD set_zip_rightD)
    then have "length r = length s"
      using assms by (auto simp: shape2_def list_all_iff)
    then show ?thesis
      by (intro bcast_same_length) simp_all
  qed
  have len: "length a = length b"
    using assms by (simp add: shape2_def)
  have "bmul2 a b = Inr (map (\<lambda>(r, s). map (\<lambda>(x, y). x * y) (zip r s)) (zip a b))"
    unfolding bmul2_def by (intro bcast_same_length [OF len]) (rule rows)
  moreover have "shape2 (map (\<lambda>(r, s). map (\<lambda>(x, y). x * y) (zip r s)) (zip a b)) n1 n2"
    using assms by (auto simp: shape2_def list_all_iff elim!: in_set_zipE)
  ultimately show ?thesis
    by blast
qed

lemma shape2_ifftshift2: "shape2 a n1 n2 \<Longrightarrow> shape2 (ifftshift2 a) n1 n2"
  by (auto simp: shape2_def ifftshift2_def list_all_iff)

lemma assign1_same: "length v = n \<Longrightarrow> assign1 n v = Inr v"
  by (simp add: assign1_def)

lemma assign2_same:
  assumes "shape2 v n1 n2"
  shows "assign2 n1 n2 v = Inr v"
proof -
  have "traverse (assign1 n2) v = Inr (map (\<lambda>r. r) v)"
    using assms by (intro traverse_total) (auto simp: shape2_def list_all_iff assign1_same)
  then show ?thesis
    using assms by (simp add: assign2_def shape2_def assign1_same)
qed

lemma convolve_plane_total:
  assumes "shape2 f_psf nx ny" and "shape2 imag nx ny" and "0 < nx" and "0 < ny"
  shows "\<exists>p. convolve_plane nx ny f_psf imag = Inr p \<and> shape2 p nx ny"
proof -
  obtain f_imag where 1: "fft2 (map (map complex_of_real) imag) = Inr f_imag"
    and s1: "shape2 f_imag nx ny"
    using fft2_total [OF shape2_map [OF assms(2)] assms(3,4)] by blast
  obtain f_cimag where 2: "bmul2 f_psf f_imag = Inr f_cimag" and s2: "shape2 f_cimag nx ny"
    using bmul2_total [OF assms(1) s1] by blast
  obtain c where 3: "ifft2 f_cimag = Inr c" and s3: "shape2 c nx ny"
    using ifft2_total [OF s2 assms(3,4)] by blast
  have s4: "shape2 (map (map cmod) (ifftshift2 c)) nx ny"
    by (intro shape2_map shape2_ifftshift2 s3)
  show ?thesis
    unfolding convolve_plane_def using 1 2 3 s4 by (simp add: assign2_same)
qed

lemma getPSF_shape:
  "\<exists>dum. getPSF nx ny [fx, fy] pa (Some [dx, dy]) = Inr dum \<and> shape2 (psf_psf dum) nx ny"
  by (simp add: getPSF_def Let_def shape2_def psf_loop_def list_all_iff)

lemma plane3_shape3:
  assumes "shape3 a n1 n2 n3" and "k < n3"
  shows "plane3 a k = Inr (map (map (\<lambda>c. c ! k)) a)"
proof -
  have row: "traverse (\<lambda>c. item c k) r = Inr (map (\<lambda>c. c ! k) r)" if "r \<in> set a" for r
  proof (rule traverse_total)
    fix c
    assume "c \<in> set r"
    then have "length c = n3"
      using that assms(1) by (auto simp: shape3_def list_all_iff)
    then show "item c k = Inr (c ! k)"
      using assms(2) by simp
  qed
  show ?thesis
    unfolding plane3_def by (rule traverse_total) (rule row)
qed

lemma shape3_plane: "shape3 a n1 n2 n3 \<Longrightarrow> shape2 (map (map f) a) n1 n2"
  by (auto simp: shape3_def shape2_def list_all_iff)

lemma stack3_nth:
  "ix < nx \<Longrightarrow> iy < ny \<Longrightarrow> k < n \<Longrightarrow> stack3 nx ny n planes ! ix ! iy ! k = planes ! k ! ix ! iy"
  by (simp add: stack3_def)

lemma imConv_cimage_intensity:
  assumes "im_image self = Img3 a" and "\<not> im_stokes self"
    and "shape3 a (im_nx self) (im_ny self) (im_nfreq self)"
    and "shape2 f_psf (im_nx self) (im_ny self)" and "0 < im_nx self" and "0 < im_ny self"
  shows "\<exists>planes. imConv_cimage self f_psf
            = Inr (Img3 (stack3 (im_nx self) (im_ny self) (im_nfreq self) planes)) \<and>
          (\<forall>ifreq<im_nfreq self.
             convolve_plane (im_nx self) (im_ny self) f_psf (map (map (\<lambda>c. c ! ifreq)) a)
             = Inr (planes ! ifreq))"
proof -
  let ?f = "\<lambda>ifreq. bindE (plane3 a ifreq) (convolve_plane (im_nx self) (im_ny self) f_psf)"
  let ?g = "\<lambda>ifreq. projr (convolve_plane (im_nx self) (im_ny self) f_psf
                (map (map (\<lambda>c. c ! ifreq)) a))"
  have step: "?f ifreq = Inr (?g ifreq)" if "ifreq < im_nfreq self" for ifreq
  proof -
    obtain p where "convolve_plane (im_nx self) (im_ny self) f_psf (map (map (\<lambda>c. c ! ifreq)) a)
        = Inr p"
      using convolve_plane_total [OF assms(4) shape3_plane [OF assms(3)] assms(5,6)] by blast
    then show ?thesis
      by (simp add: plane3_shape3 [OF assms(3) that])
  qed
  have t: "traverse ?f [0..<im_nfreq self] = Inr (map ?g [0..<im_nfreq self])"
    by (intro traverse_total) (simp add: step)
  have c: "imConv_cimage self f_psf
      = Inr (Img3 (stack3 (im_nx self) (im_ny self) (im_nfreq self) (map ?g [0..<im_nfreq self])))"
    unfolding imConv_cimage_def Let_def using assms(1,2) t by simp
  have "convolve_plane (im_nx self) (im_ny self) f_psf (map (map (\<lambda>c. c ! ifreq)) a)
        = Inr (map ?g [0..<im_nfreq self] ! ifreq)" if "ifreq < im_nfreq self" for ifreq
    using step [OF that] that by (simp add: plane3_shape3 [OF assms(3) that])
  then show ?thesis
    using c by blast
qed

lemma imConv_Inr:
  assumes "imConv self [fx, fy] pa dpc = Inr res"
  shows "\<exists>dum f_psf cimage.
     getPSF (im_nx self) (im_ny self) [fx, fy] pa
       (Some [im_sizepix_x self / au_cm / dpc, im_sizepix_y self / au_cm / dpc]) = Inr dum \<and>
     fft2 (map (map complex_of_real) (psf_psf dum)) = Inr f_psf \<and>
     imConv_cimage self f_psf = Inr cimage \<and>
     res = self\<lparr>im_image := scale_image (imConv_conv self dpc fx fy) cimage,
                im_imageJyppix := scale_image (10 ^ 23) (scale_image (imConv_conv self dpc fx fy) cimage),
                im_psf := Some (psf_psf dum), im_fwhm := [fx, fy], im_pa := pa, im_dpc := dpc\<rparr>"
  using assms unfolding imConv_def Let_def by (auto simp: bindE_eq_Inr split: if_splits)

lemma imConv_total_intensity:
  assumes "cube_ok self" and "\<not> im_stokes self" and "0 < im_nx self" and "0 < im_ny self"
    and "dpc \<noteq> 0"
  shows "\<exists>res. imConv self [fx, fy] pa dpc = Inr res"
proof -
  obtain a where img: "im_image self = Img3 a"
    and sh: "shape3 a (im_nx self) (im_ny self) (im_nfreq self)"
    using assms(1,2) by (auto simp: cube_ok_def split: image.splits)
  obtain dum where d: "getPSF (im_nx self) (im_ny self) [fx, fy] pa
       (Some [im_sizepix_x self / au_cm / dpc, im_sizepix_y self / au_cm / dpc]) = Inr dum"
    and sd: "shape2 (psf_psf dum) (im_nx self) (im_ny self)"
    using getPSF_shape by blast
  obtain f_psf where f: "fft2 (map (map complex_of_real) (psf_psf dum)) = Inr f_psf"
    and sf: "shape2 f_psf (im_nx self) (im_ny self)"
    using fft2_total [OF shape2_map [OF sd] assms(3,4)] by blast
  obtain planes where "imConv_cimage self f_psf
            = Inr (Img3 (stack3 (im_nx self) (im_ny self) (im_nfreq self) planes))"
    using imConv_cimage_intensity [OF img assms(2) sh sf assms(3,4)] by blast
  then show ?thesis
    unfolding imConv_def Let_def using d f assms(5) by simp
qed

lemmas imConv_eval = imConv_def imConv_cimage_def convolve_plane_def convolve_block_def
  plane3_def plane4_def fft2_def ifft2_def bmul2_def assign2_def assign3_into2_def
  bcast_def assign1_def getPSF_def psf_axis_def psf_loop_def

subsection \<open>The transforms written out\<close>

lemma sum_list_upt: "sum_list (map f [0..<n]) = (\<Sum>i<n. f i)"
  for f :: "nat \<Rightarrow> 'a::comm_monoid_add"
  by (simp add: interv_sum_list_conv_sum_set_nat atLeast0LessThan)

lemma dft2_nth:
  assumes "k < length a" and "l < length (hd a)"
  shows "dft2 sg a ! k ! l =
     (\<Sum>i<length a. \<Sum>j<length (hd a).
        a ! i ! j * cis (sg * 2 * pi * (real k * real i / real (length a)
                                        + real l * real j / real (length (hd a)))))"
  using assms by (simp add: dft2_def Let_def sum_list_upt)

lemma bmul2_same:
  assumes "shape2 a n1 n2" and "shape2 b n1 n2"
  shows "\<exists>c. bmul2 a b = Inr c \<and> shape2 c n1 n2 \<and>
           (\<forall>i<n1. \<forall>j<n2. c ! i ! j = a ! i ! j * b ! i ! j)"
proof -
  have rows: "bcast (\<lambda>x y. Inr (x * y)) r s = Inr (map (\<lambda>(x, y). x * y) (zip r s))"
    if "(r, s) \<in> set (zip a b)" for r s :: "complex list"
  proof -
    have "r \<in> set a" "s \<in> set b"
      using that by (auto dest: set_zip_leftD set_zip_rightD)
    then have "length r = length s"
      using assms by (auto simp: shape2_def list_all_iff)
    then show ?thesis
      by (intro bcast_same_length) simp_all
  qed
  have len: "length a = length b"
    using assms by (simp add: shape2_def)
  let ?c = "map (\<lambda>(r, s). map (\<lambda>(x, y). x * y) (zip r s)) (zip a b)"
  have "bmul2 a b = Inr ?c"
    unfolding bmul2_def by (intro bcast_same_length [OF len]) (rule rows)
  moreover have "shape2 ?c n1 n2"
    using assms by (auto simp: shape2_def list_all_iff elim!: in_set_zipE)
  moreover have "?c ! i ! j = a ! i ! j * b ! i ! j" if "i < n1" "j < n2" for i j
  proof -
    have "length (a ! i) = n2" "length (b ! i) = n2" "i < length a" "i < length b"
      using assms that by (auto simp: shape2_def list_all_length)
    then show ?thesis
      using that by simp
  qed
  ultimately show ?thesis
    by blast
qed

lemma ifftshift2_nth:
  assumes "shape2 a n1 n2" and "i < n1" and "j < n2"
  shows "ifftshift2 a ! i ! j = a ! ((i + n1 div 2) mod n1) ! ((j + n2 div 2) mod n2)"
proof -
  have l: "length a = n1"
    using assms(1) by (simp add: shape2_def)
  have m: "(i + n1 div 2) mod n1 < n1"
    using assms(2) by simp
  then have r: "length (a ! ((i + n1 div 2) mod n1)) = n2"
    using assms(1) by (simp add: shape2_def list_all_length)
  show ?thesis
    unfolding ifftshift2_def using assms(2,3) l m r
    by (simp add: nth_rotate add.commute)
qed


lemma fft2_real_nth:
  assumes "shape2 a nx ny" and "0 < nx" and "0 < ny"
    and "fft2 (map (map complex_of_real) a) = Inr fa" and "k < nx" and "l < ny"
    and h: "\<And>i j. i < nx \<Longrightarrow> j < ny \<Longrightarrow> a ! i ! j = h i j"
  shows "fa ! k ! l =
     (\<Sum>i<nx. \<Sum>j<ny. complex_of_real (h i j)
        * cis (- (2 * pi * (real k * real i / real nx + real l * real j / real ny))))"
proof -
  let ?a = "map (map complex_of_real) a"
  have s: "shape2 ?a nx ny"
    by (rule shape2_map [OF assms(1)])
  have l: "?a \<noteq> []" "length (hd ?a) = ny" "length ?a = nx"
    using shape2_hd [OF s assms(2)] s by (simp_all add: shape2_def)
  have fa: "fa = dft2 (- 1) ?a"
    using assms(4) by (simp add: fft2_def split: if_splits)
  have e: "?a ! i ! j = complex_of_real (h i j)" if "i < nx" "j < ny" for i j
  proof -
    have "i < length a" "length (a ! i) = ny"
      using assms(1) that by (auto simp: shape2_def list_all_length)
    then show ?thesis
      using that h [OF that] by simp
  qed
  have "fa ! k ! l =
     (\<Sum>i<nx. \<Sum>j<ny. ?a ! i ! j
        * cis (- 1 * 2 * pi * (real k * real i / real nx + real l * real j / real ny)))"
    unfolding fa using dft2_nth [of k ?a l "- 1"] assms(5,6) unfolding l by simp
  also have "\<dots> = (\<Sum>i<nx. \<Sum>j<ny. complex_of_real (h i j)
        * cis (- (2 * pi * (real k * real i / real nx + real l * real j / real ny))))"
    by (intro sum.cong refl) (simp add: e)
  finally show ?thesis .
qed

lemma ifft2_nth:
  assumes "shape2 b nx ny" and "0 < nx" and "0 < ny"
    and "ifft2 b = Inr c" and "m < nx" and "n < ny"
  shows "shape2 c nx ny \<and> c ! m ! n =
     (\<Sum>k<nx. \<Sum>l<ny. b ! k ! l
        * cis (2 * pi * (real m * real k / real nx + real n * real l / real ny)))
     / of_nat (nx * ny)"
proof -
  have l: "b \<noteq> []" "length (hd b) = ny" "length b = nx"
    using shape2_hd [OF assms(1,2)] assms(1) by (simp_all add: shape2_def)
  have c: "c = map (map (\<lambda>z. z / of_nat (nx * ny))) (dft2 1 b)"
    using assms(4) l by (simp add: ifft2_def split: if_splits)
  have sd: "shape2 (dft2 1 b) nx ny"
    using shape2_dft2 [of 1 b] unfolding l .
  then have r: "m < length (dft2 1 b)" "length (dft2 1 b ! m) = ny"
    using assms(5) by (auto simp: shape2_def list_all_length)
  have "c ! m ! n = dft2 1 b ! m ! n / of_nat (nx * ny)"
    unfolding c using r assms(6) by simp
  also have "dft2 1 b ! m ! n = (\<Sum>k<nx. \<Sum>l<ny. b ! k ! l
        * cis (1 * 2 * pi * (real m * real k / real nx + real n * real l / real ny)))"
    using dft2_nth [of m b n 1] assms(5,6) unfolding l by simp
  finally show ?thesis
    using shape2_map [OF sd] unfolding c by simp
qed

lemma convolve_plane_nth:
  assumes sp: "shape2 psf nx ny" and si: "shape2 imag nx ny" and nx: "0 < nx" and ny: "0 < ny"
    and f: "fft2 (map (map complex_of_real) psf) = Inr f_psf"
    and c: "convolve_plane nx ny f_psf imag = Inr p"
    and ix: "ix < nx" and iy: "iy < ny"
    and hp: "\<And>i j. i < nx \<Longrightarrow> j < ny \<Longrightarrow> psf ! i ! j = h i j"
    and hg: "\<And>i j. i < nx \<Longrightarrow> j < ny \<Longrightarrow> imag ! i ! j = g i j"
  shows "p ! ix ! iy =
     cmod ((\<Sum>k<nx. \<Sum>l<ny.
              ((\<Sum>i<nx. \<Sum>j<ny. complex_of_real (h i j)
                  * cis (- (2 * pi * (real k * real i / real nx + real l * real j / real ny))))
               * (\<Sum>i<nx. \<Sum>j<ny. complex_of_real (g i j)
                  * cis (- (2 * pi * (real k * real i / real nx + real l * real j / real ny)))))
              * cis (2 * pi * (real ((ix + nx div 2) mod nx) * real k / real nx
                               + real ((iy + ny div 2) mod ny) * real l / real ny)))
           / of_nat (nx * ny))"
proof -
  obtain f_psf' where "fft2 (map (map complex_of_real) psf) = Inr f_psf'" "shape2 f_psf' nx ny"
    using fft2_total [OF shape2_map [OF sp] nx ny] by blast
  then have sf: "shape2 f_psf nx ny"
    using f by simp
  obtain f_imag where 1: "fft2 (map (map complex_of_real) imag) = Inr f_imag"
    and s1: "shape2 f_imag nx ny"
    using fft2_total [OF shape2_map [OF si] nx ny] by blast
  obtain f_cimag where 2: "bmul2 f_psf f_imag = Inr f_cimag" and s2: "shape2 f_cimag nx ny"
    and e2: "\<forall>i<nx. \<forall>j<ny. f_cimag ! i ! j = f_psf ! i ! j * f_imag ! i ! j"
    using bmul2_same [OF sf s1] by blast
  obtain cc where 3: "ifft2 f_cimag = Inr cc" and s3: "shape2 cc nx ny"
    using ifft2_total [OF s2 nx ny] by blast
  let ?v = "map (map cmod) (ifftshift2 cc)"
  have s4: "shape2 ?v nx ny"
    by (intro shape2_map shape2_ifftshift2 s3)
  have p: "p = ?v"
    using c unfolding convolve_plane_def by (simp add: 1 2 3 assign2_same [OF s4])
  have s5: "shape2 (ifftshift2 cc) nx ny"
    by (rule shape2_ifftshift2 [OF s3])
  then have r: "ix < length (ifftshift2 cc)" "length (ifftshift2 cc ! ix) = ny"
    using ix by (auto simp: shape2_def list_all_length)
  define m where "m = (ix + nx div 2) mod nx"
  define n where "n = (iy + ny div 2) mod ny"
  have mn: "m < nx" "n < ny"
    using nx ny by (simp_all add: m_def n_def)
  have "p ! ix ! iy = cmod (ifftshift2 cc ! ix ! iy)"
    unfolding p using r iy by simp
  also have "ifftshift2 cc ! ix ! iy = cc ! m ! n"
    unfolding m_def n_def by (rule ifftshift2_nth [OF s3 ix iy])
  also have "cc ! m ! n = (\<Sum>k<nx. \<Sum>l<ny. f_cimag ! k ! l
        * cis (2 * pi * (real m * real k / real nx + real n * real l / real ny)))
     / of_nat (nx * ny)"
    using ifft2_nth [OF s2 nx ny 3 mn] by simp
  also have "(\<Sum>k<nx. \<Sum>l<ny. f_cimag ! k ! l
        * cis (2 * pi * (real m * real k / real nx + real n * real l / real ny)))
     = (\<Sum>k<nx. \<Sum>l<ny.
              ((\<Sum>i<nx. \<Sum>j<ny. complex_of_real (h i j)
                  * cis (- (2 * pi * (real k * real i / real nx + real l * real j / real ny))))
               * (\<Sum>i<nx. \<Sum>j<ny. complex_of_real (g i j)
                  * cis (- (2 * pi * (real k * real i / real nx + real l * real j / real ny)))))
              * cis (2 * pi * (real m * real k / real nx + real n * real l / real ny)))"
  proof (intro sum.cong refl)
    fix k l
    assume "k \<in> {..<nx}" "l \<in> {..<ny}"
    then have kl: "k < nx" "l < ny"
      by simp_all
    have "f_cimag ! k ! l = f_psf ! k ! l * f_imag ! k ! l"
      using e2 kl by simp
    also have "f_psf ! k ! l = (\<Sum>i<nx. \<Sum>j<ny. complex_of_real (h i j)
                  * cis (- (2 * pi * (real k * real i / real nx + real l * real j / real ny))))"
      by (rule fft2_real_nth [OF sp nx ny f kl hp])
    also have "f_imag ! k ! l = (\<Sum>i<nx. \<Sum>j<ny. complex_of_real (g i j)
                  * cis (- (2 * pi * (real k * real i / real nx + real l * real j / real ny))))"
      by (rule fft2_real_nth [OF si nx ny 1 kl hg])
    finally show "f_cimag ! k ! l
        * cis (2 * pi * (real m * real k / real nx + real n * real l / real ny))
      = ((\<Sum>i<nx. \<Sum>j<ny. complex_of_real (h i j)
                  * cis (- (2 * pi * (real k * real i / real nx + real l * real j / real ny))))
               * (\<Sum>i<nx. \<Sum>j<ny. complex_of_real (g i j)
                  * cis (- (2 * pi * (real k * real i / real nx + real l * real j / real ny)))))
              * cis (2 * pi * (real m * real k / real nx + real n * real l / real ny))"
      by simp
  qed
  finally show ?thesis
    unfolding m_def n_def .
qed


lemma getPSF_pixels:
  assumes "getPSF nx ny [fx, fy] pa (Some [dx, dy]) = Inr dum" and "i < nx" and "j < ny"
  shows "psf_psf dum ! i ! j =
     (let x = (real i - real (nx div 2)) * dx;
          y = (real j - real (ny div 2)) * dy;
          sigmax = fx / (2 * sqrt (2 * ln 2));
          sigmay = fy / (2 * sqrt (2 * ln 2));
          sin_pa = sin (pa / 180 * pi - pi / 2);
          cos_pa = cos (pa / 180 * pi - pi / 2);
          xx = cos_pa * x - sin_pa * y;
          yy = sin_pa * x + cos_pa * y
      in exp (- 0.5 * xx * xx / sigmax / sigmax - 0.5 * yy * yy / sigmay / sigmay)
         / (1 / (2 * pi * sigmax * sigmay)))"
proof -
  have d: "dum = \<lparr>psf_psf = map (map (\<lambda>v. v / psf_norm (fwhm_sigma fx) (fwhm_sigma fy)))
              (psf_loop nx ny (psf_axis nx dx) (psf_axis ny dy) (fwhm_sigma fx) (fwhm_sigma fy)
                 (sin (pa / 180 * pi - pi / 2)) (cos (pa / 180 * pi - pi / 2))),
            psf_x = psf_axis nx dx, psf_y = psf_axis ny dy\<rparr>"
    using assms(1) by (simp add: getPSF_def Let_def)
  have "psf_psf dum ! i ! j =
      psf_pixel (fwhm_sigma fx) (fwhm_sigma fy) (sin (pa / 180 * pi - pi / 2))
        (cos (pa / 180 * pi - pi / 2)) ((real i - real (nx div 2)) * dx)
        ((real j - real (ny div 2)) * dy) / psf_norm (fwhm_sigma fx) (fwhm_sigma fy)"
    unfolding d using assms(2,3) by (simp add: psf_loop_def psf_axis_def)
  then show ?thesis
    unfolding psf_pixel_def fwhm_sigma_def psf_norm_def Let_def .
qed

lemma shape4_shape3: "shape4 a n1 n2 n3 n4 \<Longrightarrow> shape3 a n1 n2 n3"
  by (auto simp: shape4_def shape3_def list_all_iff)

lemma shape4_plane: "shape4 a n1 n2 n3 n4 \<Longrightarrow> shape2 (map (map f) a) n1 n2"
  by (rule shape3_plane [OF shape4_shape3])

lemma plane4_shape4:
  assumes "shape4 a n1 n2 n3 n4" and "k < n3" and "f < n4"
  shows "plane4 a k f = Inr (map (map (\<lambda>c. c ! k ! f)) a)"
proof -
  have row: "traverse (\<lambda>c. bindE (item c k) (\<lambda>d. item d f)) r = Inr (map (\<lambda>c. c ! k ! f) r)"
    if "r \<in> set a" for r
  proof (rule traverse_total)
    fix c
    assume "c \<in> set r"
    then have "length c = n3" "\<forall>d\<in>set c. length d = n4"
      using that assms(1) by (auto simp: shape4_def shape3_def list_all_iff)
    then have "length c = n3" "length (c ! k) = n4"
      using assms(2) by auto
    then show "bindE (item c k) (\<lambda>d. item d f) = Inr (c ! k ! f)"
      using assms(2,3) by simp
  qed
  show ?thesis
    unfolding plane4_def by (rule traverse_total) (rule row)
qed

lemma imConv_cimage_stokes:
  assumes "im_image self = Img4 a" and "im_stokes self" and "im_nfreq self \<noteq> 1"
    and "shape4 a (im_nx self) (im_ny self) 4 (im_nfreq self)"
    and "shape2 f_psf (im_nx self) (im_ny self)" and "0 < im_nx self" and "0 < im_ny self"
  shows "\<exists>planes. imConv_cimage self f_psf
            = Inr (Img4 (stack4 (im_nx self) (im_ny self) (im_nfreq self) planes)) \<and>
          (\<forall>ifreq<im_nfreq self. \<forall>k<4.
             convolve_plane (im_nx self) (im_ny self) f_psf (map (map (\<lambda>c. c ! k ! ifreq)) a)
             = Inr (planes ! ifreq ! k))"
proof -
  let ?f = "\<lambda>ifreq istokes.
     bindE (plane4 a istokes ifreq) (convolve_plane (im_nx self) (im_ny self) f_psf)"
  let ?g = "\<lambda>ifreq istokes. projr (convolve_plane (im_nx self) (im_ny self) f_psf
                (map (map (\<lambda>c. c ! istokes ! ifreq)) a))"
  have step: "?f ifreq k = Inr (?g ifreq k)"
    and conv: "convolve_plane (im_nx self) (im_ny self) f_psf (map (map (\<lambda>c. c ! k ! ifreq)) a)
                 = Inr (?g ifreq k)"
    if "ifreq < im_nfreq self" "k < 4" for ifreq k
  proof -
    obtain p where p: "convolve_plane (im_nx self) (im_ny self) f_psf
        (map (map (\<lambda>c. c ! k ! ifreq)) a) = Inr p"
      using convolve_plane_total [OF assms(5) shape4_plane [OF assms(4)] assms(6,7)] by blast
    then show "?f ifreq k = Inr (?g ifreq k)"
      by (simp add: plane4_shape4 [OF assms(4) that(2,1)])
    show "convolve_plane (im_nx self) (im_ny self) f_psf (map (map (\<lambda>c. c ! k ! ifreq)) a)
                 = Inr (?g ifreq k)"
      using p by simp
  qed
  have inner: "traverse (?f ifreq) [0..<4] = Inr (map (?g ifreq) [0..<4])"
    if "ifreq < im_nfreq self" for ifreq
    by (rule traverse_total) (simp add: step [OF that])
  let ?planes = "map (\<lambda>ifreq. map (?g ifreq) [0..<4]) [0..<im_nfreq self]"
  have t: "traverse (\<lambda>ifreq. traverse (?f ifreq) [0..<4]) [0..<im_nfreq self] = Inr ?planes"
    by (rule traverse_total) (simp add: inner)
  have c: "imConv_cimage self f_psf
      = Inr (Img4 (stack4 (im_nx self) (im_ny self) (im_nfreq self) ?planes))"
    unfolding imConv_cimage_def Let_def using assms(1,2,3) t by simp
  have "convolve_plane (im_nx self) (im_ny self) f_psf (map (map (\<lambda>c. c ! k ! ifreq)) a)
        = Inr (?planes ! ifreq ! k)" if "ifreq < im_nfreq self" "k < 4" for ifreq k
    using conv [OF that] that by simp
  then show ?thesis
    using c by blast
qed

lemma bcast_Inr_length:
  "bcast f xs ys = Inr zs \<Longrightarrow>
   length zs = (if length xs = length ys then length xs
                else if length xs = 1 then length ys else length xs)"
  by (auto simp: bcast_def dest: traverse_Inr_length split: if_splits)

lemma convolve_block_single:
  "convolve_block nx ny f_psf [plane] = convolve_plane nx ny f_psf plane"
  by (auto simp: convolve_block_def convolve_plane_def bindE_def ifftshift3_def
      assign3_into2_def split: sum.splits)

lemma convolve_block_Inr:
  assumes "shape2 f_psf nx ny" and "shape3 block nx ny 1" and "0 < nx" and "0 < ny"
    and "convolve_block nx ny f_psf block = Inr p"
  shows "nx = 1 \<and> ny = 1"
proof -
  from assms(5) obtain f_imag f_cimag c where
    1: "traverse (\<lambda>plane. fft2 (map (map complex_of_real) plane)) block = Inr f_imag"
    and 2: "traverse (bmul2 f_psf) f_imag = Inr f_cimag"
    and 3: "traverse ifft2 f_cimag = Inr c"
    and 4: "assign3_into2 nx ny (map (map (map cmod)) (ifftshift3 c)) = Inr p"
    unfolding convolve_block_def by (auto simp: bindE_eq_Inr)
  have lb: "length block = nx"
    using assms(2) by (simp add: shape3_def)
  have l1: "length f_imag = nx"
    using traverse_Inr_length [OF 1] lb by simp
  have l2: "length f_cimag = nx"
    using traverse_Inr_length [OF 2] l1 by simp
  have l3: "length c = nx"
    using traverse_Inr_length [OF 3] l2 by simp
  have "length (ifftshift3 c) = 1"
    using 4 by (simp add: assign3_into2_def split: if_splits)
  then have nx: "nx = 1"
    using l3 by (simp add: ifftshift3_def)
  have z: "(0::nat) < length block" "(0::nat) < length f_imag" "(0::nat) < length f_cimag"
    using lb l1 l2 nx by simp_all
  have b0: "length (block ! 0) = ny"
    using assms(2) z(1) by (auto simp: shape3_def list_all_length)
  have "fft2 (map (map complex_of_real) (block ! 0)) = Inr (f_imag ! 0)"
    using traverse_Inr_nth [OF 1 z(1)] .
  then have "f_imag ! 0 = dft2 (- 1) (map (map complex_of_real) (block ! 0))"
    by (simp add: fft2_def split: if_splits)
  then have f0: "length (f_imag ! 0) = ny"
    using b0 by (simp add: dft2_def Let_def)
  have "bmul2 f_psf (f_imag ! 0) = Inr (f_cimag ! 0)"
    using traverse_Inr_nth [OF 2 z(2)] .
  then have g0: "length (f_cimag ! 0) = ny"
    using bcast_Inr_length [of "bcast (\<lambda>x y. Inr (x * y))" f_psf "f_imag ! 0" "f_cimag ! 0"]
      f0 assms(1) nx by (auto simp: bmul2_def shape2_def split: if_splits)
  have "ifft2 (f_cimag ! 0) = Inr (c ! 0)"
    using traverse_Inr_nth [OF 3 z(3)] .
  then have "c ! 0 = map (map (\<lambda>z. z / of_nat (length (f_cimag ! 0) * length (hd (f_cimag ! 0)))))
                       (dft2 1 (f_cimag ! 0))"
    by (simp add: ifft2_def split: if_splits)
  then have c0: "length (c ! 0) = ny"
    using g0 by (simp add: dft2_def Let_def)
  obtain c' where c: "c = [c']"
    using l3 nx by (cases c) simp_all
  have c0': "length c' = ny"
    using c0 c by simp
  have "assign2 1 ny (map (map cmod) (ifftshift2 c')) = Inr p"
    using 4 unfolding c nx by (simp add: assign3_into2_def ifftshift3_def)
  then obtain rows where r: "traverse (assign1 ny) (map (map cmod) (ifftshift2 c')) = Inr rows"
    and a: "assign1 1 rows = Inr p"
    unfolding assign2_def by (auto simp: bindE_eq_Inr)
  have "length rows = ny"
    using traverse_Inr_length [OF r] c0' by (simp add: ifftshift2_def)
  moreover have "length rows = 1"
    using a by (simp add: assign1_def split: if_splits)
  ultimately show ?thesis
    using nx by simp
qed

lemma plane_nth:
  "shape3 a n1 n2 n3 \<Longrightarrow> i < n1 \<Longrightarrow> j < n2 \<Longrightarrow> map (map f) a ! i ! j = f (a ! i ! j)"
  by (auto simp: shape3_def list_all_length)

lemma shape3_stack3: "shape3 (stack3 nx ny n planes) nx ny n"
  by (simp add: stack3_def shape3_def list_all_iff)

lemma shape4_stack4: "shape4 (stack4 nx ny nfreq planes) nx ny 4 nfreq"
  by (simp add: stack4_def shape4_def shape3_def list_all_iff)

lemma shape3_scale: "shape3 a n1 n2 n3 \<Longrightarrow> shape3 (map (map (map f)) a) n1 n2 n3"
  by (auto simp: shape3_def list_all_iff)

lemma shape4_scale: "shape4 a n1 n2 n3 n4 \<Longrightarrow> shape4 (map (map (map (map f))) a) n1 n2 n3 n4"
  by (auto simp: shape4_def shape3_def list_all_iff)

lemma scale3_nth:
  "shape3 a n1 n2 n3 \<Longrightarrow> i < n1 \<Longrightarrow> j < n2 \<Longrightarrow> k < n3 \<Longrightarrow>
   map (map (map f)) a ! i ! j ! k = f (a ! i ! j ! k)"
  by (auto simp: shape3_def list_all_length)

lemma scale4_nth:
  "shape4 a n1 n2 n3 n4 \<Longrightarrow> i < n1 \<Longrightarrow> j < n2 \<Longrightarrow> k < n3 \<Longrightarrow> l < n4 \<Longrightarrow>
   map (map (map (map f))) a ! i ! j ! k ! l = f (a ! i ! j ! k ! l)"
  by (auto simp: shape4_def shape3_def list_all_length)

lemma stack4_nth:
  "ix < nx \<Longrightarrow> iy < ny \<Longrightarrow> k < 4 \<Longrightarrow> ifreq < nfreq \<Longrightarrow>
   stack4 nx ny nfreq planes ! ix ! iy ! k ! ifreq = planes ! ifreq ! k ! ix ! iy"
  by (simp add: stack4_def)

lemma shape4_block:
  "shape4 a n1 n2 n3 n4 \<Longrightarrow> k < n3 \<Longrightarrow> shape3 (map (map (\<lambda>c. c ! k)) a) n1 n2 n4"
  by (auto simp: shape4_def shape3_def list_all_iff)

lemma singleton_nth: "length xs = 1 \<Longrightarrow> xs = [xs ! 0]"
  by (cases xs) simp_all

lemma imConv_cimage_stokes_single:
  assumes "im_image self = Img4 a" and "im_stokes self" and "im_nfreq self = 1"
    and "shape4 a (im_nx self) (im_ny self) 4 1"
    and "shape2 f_psf (im_nx self) (im_ny self)" and "0 < im_nx self" and "0 < im_ny self"
    and "imConv_cimage self f_psf = Inr cimage"
  shows "im_nx self = 1 \<and> im_ny self = 1 \<and>
     (\<exists>planes. cimage = Img3 (stack3 1 1 4 planes) \<and>
        (\<forall>k<4. convolve_plane 1 1 f_psf (map (map (\<lambda>c. c ! k ! 0)) a) = Inr (planes ! k)))"
proof -
  let ?f = "\<lambda>istokes. bindE (plane3 a istokes) (convolve_block (im_nx self) (im_ny self) f_psf)"
  obtain planes where t: "traverse ?f [0..<4] = Inr planes"
    and ci: "cimage = Img3 (stack3 (im_nx self) (im_ny self) 4 planes)"
    using assms(8) unfolding imConv_cimage_def Let_def
    by (auto simp: assms(1,2,3) bindE_eq_Inr)
  have blk: "convolve_block (im_nx self) (im_ny self) f_psf (map (map (\<lambda>c. c ! k)) a)
             = Inr (planes ! k)" if "k < 4" for k
  proof -
    have "?f ([0..<4] ! k) = Inr (planes ! k)"
      using that by (intro traverse_Inr_nth [OF t]) simp
    then show ?thesis
      using that by (simp add: plane3_shape3 [OF shape4_shape3 [OF assms(4)] that])
  qed
  have n: "im_nx self = 1 \<and> im_ny self = 1"
    by (rule convolve_block_Inr [OF assms(5) shape4_block [OF assms(4)] assms(6,7) blk [of 0]])
      simp_all
  have pl: "convolve_plane 1 1 f_psf (map (map (\<lambda>c. c ! k ! 0)) a) = Inr (planes ! k)"
    if "k < 4" for k
  proof -
    have sb: "shape3 (map (map (\<lambda>c. c ! k)) a) 1 1 1"
      using shape4_block [OF assms(4) that] n by simp
    have la: "length a = 1" "length (a ! 0) = 1" "length (a ! 0 ! 0 ! k) = 1"
      using sb by (auto simp: shape3_def list_all_length)
    have a: "a = [[a ! 0 ! 0]]"
      using singleton_nth [OF la(1)] singleton_nth [OF la(2)] by simp
    have "map (map (\<lambda>c. c ! k)) a = [map (map (\<lambda>c. c ! k ! 0)) a]"
      using singleton_nth [OF la(3)] by (subst (1 2) a) simp
    then show ?thesis
      using blk [OF that] n by (simp add: convolve_block_single)
  qed
  show ?thesis
    using n ci pl by auto
qed

lemma imConv_total_stokes:
  assumes "cube_ok self" and "im_stokes self" and "im_nfreq self \<noteq> 1"
    and "0 < im_nx self" and "0 < im_ny self" and "dpc \<noteq> 0"
  shows "\<exists>res. imConv self [fx, fy] pa dpc = Inr res"
proof -
  obtain a where img: "im_image self = Img4 a"
    and sh: "shape4 a (im_nx self) (im_ny self) 4 (im_nfreq self)"
    using assms(1,2) by (auto simp: cube_ok_def split: image.splits)
  obtain dum where d: "getPSF (im_nx self) (im_ny self) [fx, fy] pa
       (Some [im_sizepix_x self / au_cm / dpc, im_sizepix_y self / au_cm / dpc]) = Inr dum"
    and sd: "shape2 (psf_psf dum) (im_nx self) (im_ny self)"
    using getPSF_shape by blast
  obtain f_psf where f: "fft2 (map (map complex_of_real) (psf_psf dum)) = Inr f_psf"
    and sf: "shape2 f_psf (im_nx self) (im_ny self)"
    using fft2_total [OF shape2_map [OF sd] assms(4,5)] by blast
  obtain planes where "imConv_cimage self f_psf
            = Inr (Img4 (stack4 (im_nx self) (im_ny self) (im_nfreq self) planes))"
    using imConv_cimage_stokes [OF img assms(2,3) sh sf assms(4,5)] by blast
  then show ?thesis
    unfolding imConv_def Let_def using d f assms(6) by simp
qed

subsection \<open>The result of a convolution\<close>

text \<open>
  Claim C8. Let the cube satisfy the loader's invariant and have at least one pixel along
  each axis, and let \<open>fwhm = (fx, fy)\<close> and \<open>dpc\<close> be positive. Unless the cube is a Stokes
  cube with a single frequency (claim C4), \<^verbatim>\<open>imConv\<close> returns. Every cube \<open>res\<close> it
  returns is the source with six attributes replaced: \<^verbatim>\<open>imageJyppix\<close> is the new image
  with every value times \<^verbatim>\<open>1e23\<close>, and \<^verbatim>\<open>psf\<close>, \<^verbatim>\<open>fwhm\<close>, \<^verbatim>\<open>pa\<close> and \<^verbatim>\<open>dpc\<close> are the
  kernel and the arguments. The kernel is the Gaussian of \<^verbatim>\<open>getPSF\<close> on the pixel scale
  \<open>(sizepix_x / au / dpc, sizepix_y / au / dpc)\<close>, written out pixel by pixel. The new
  image has the shape of the source image; its value at pixel \<open>(ix, iy)\<close> of every plane
  (frequency \<open>ifreq\<close>, and Stokes component \<open>k\<close> of a Stokes cube) is
  \<open>convolved plane ix iy * conv\<close> with the one scalar
  \<open>conv = sizepix_x * sizepix_y / (dpc * pc)^2 / (fx * fy * pi / (4 * ln 2))\<close>, where
  \<open>convolved\<close> is written with the sums of the discrete Fourier transform: \<open>F\<close> is the
  forward transform of a plane, \<open>G\<close> the inverse transform with its factor
  \<open>1 / (nx * ny)\<close>, the two transforms of kernel and plane are multiplied entry by entry,
  and the magnitude of the inverse transform is read at the index shifted by half the axis,
  \<open>((ix + nx div 2) mod nx, (iy + ny div 2) mod ny)\<close>. The only single-frequency Stokes
  cubes for which the call returns have one pixel; the result then has rank 3.
\<close>

theorem imConv_result:
  assumes "0 < fx" and "0 < fy" and "0 < dpc"
    and "cube_ok self" and "0 < im_nx self" and "0 < im_ny self"
  shows "(\<not> (im_stokes self \<and> im_nfreq self = 1) \<longrightarrow> \<not> isl (imConv self [fx, fy] pa dpc)) \<and>
    (\<forall>res. imConv self [fx, fy] pa dpc = Inr res \<longrightarrow>
      (\<exists>psf.
        (let nx = im_nx self; ny = im_ny self; nfreq = im_nfreq self;
             conv = im_sizepix_x self * im_sizepix_y self / (dpc * (308572 * 10 ^ 13))\<^sup>2
                    / (fx * fy * pi / (4 * ln 2));
             F = (\<lambda>a k l. \<Sum>i<nx. \<Sum>j<ny. complex_of_real (a i j)
                    * cis (- (2 * pi * (real k * real i / real nx + real l * real j / real ny))));
             G = (\<lambda>b m n. (\<Sum>k<nx. \<Sum>l<ny. b k l
                    * cis (2 * pi * (real m * real k / real nx + real n * real l / real ny)))
                    / of_nat (nx * ny));
             convolved = (\<lambda>plane ix iy.
                    cmod (G (\<lambda>k l. F (\<lambda>i j. psf ! i ! j) k l * F plane k l)
                            ((ix + nx div 2) mod nx) ((iy + ny div 2) mod ny)))
         in res = self\<lparr>im_image := im_image (res),
                      im_imageJyppix := im_imageJyppix (res),
                      im_psf := Some psf, im_fwhm := [fx, fy], im_pa := pa, im_dpc := dpc\<rparr> \<and>
            shape2 psf nx ny \<and>
            (\<forall>i<nx. \<forall>j<ny. psf ! i ! j =
               (let x = (real i - real (nx div 2)) * (im_sizepix_x self / (1496 * 10 ^ 10) / dpc);
                    y = (real j - real (ny div 2)) * (im_sizepix_y self / (1496 * 10 ^ 10) / dpc);
                    sigmax = fx / (2 * sqrt (2 * ln 2));
                    sigmay = fy / (2 * sqrt (2 * ln 2));
                    sin_pa = sin (pa / 180 * pi - pi / 2);
                    cos_pa = cos (pa / 180 * pi - pi / 2);
                    xx = cos_pa * x - sin_pa * y;
                    yy = sin_pa * x + cos_pa * y
                in exp (- 0.5 * xx * xx / sigmax / sigmax - 0.5 * yy * yy / sigmay / sigmay)
                   / (1 / (2 * pi * sigmax * sigmay)))) \<and>
            (case im_image self of
               Img0 \<Rightarrow> False
             | Img3 a \<Rightarrow>
                 (\<exists>c jy. im_image (res) = Img3 c \<and> im_imageJyppix (res) = Img3 jy \<and>
                    shape3 c nx ny nfreq \<and> shape3 jy nx ny nfreq \<and>
                    (\<forall>ix<nx. \<forall>iy<ny. \<forall>ifreq<nfreq.
                       c ! ix ! iy ! ifreq = convolved (\<lambda>i j. a ! i ! j ! ifreq) ix iy * conv \<and>
                       jy ! ix ! iy ! ifreq = c ! ix ! iy ! ifreq * 10 ^ 23))
             | Img4 a \<Rightarrow>
                 if nfreq = 1
                 then nx = 1 \<and> ny = 1 \<and>
                   (\<exists>c jy. im_image (res) = Img3 c \<and> im_imageJyppix (res) = Img3 jy \<and>
                      shape3 c 1 1 4 \<and> shape3 jy 1 1 4 \<and>
                      (\<forall>k<4. c ! 0 ! 0 ! k = convolved (\<lambda>i j. a ! i ! j ! k ! 0) 0 0 * conv \<and>
                             jy ! 0 ! 0 ! k = c ! 0 ! 0 ! k * 10 ^ 23))
                 else
                   (\<exists>c jy. im_image (res) = Img4 c \<and> im_imageJyppix (res) = Img4 jy \<and>
                      shape4 c nx ny 4 nfreq \<and> shape4 jy nx ny 4 nfreq \<and>
                      (\<forall>ix<nx. \<forall>iy<ny. \<forall>k<4. \<forall>ifreq<nfreq.
                         c ! ix ! iy ! k ! ifreq
                         = convolved (\<lambda>i j. a ! i ! j ! k ! ifreq) ix iy * conv \<and>
                         jy ! ix ! iy ! k ! ifreq = c ! ix ! iy ! k ! ifreq * 10 ^ 23))))))"
    (is "_ \<and> (\<forall>res. _ \<longrightarrow> (\<exists>psf. ?B res psf))")
proof (intro conjI allI impI)
  assume ns: "\<not> (im_stokes self \<and> im_nfreq self = 1)"
  have dz: "dpc \<noteq> 0"
    using assms(3) by simp
  show "\<not> isl (imConv self [fx, fy] pa dpc)"
  proof (cases "im_stokes self")
    case True
    then show ?thesis
      using imConv_total_stokes [OF assms(4) True _ assms(5,6) dz, of fx fy pa] ns by auto
  next
    case False
    then show ?thesis
      using imConv_total_intensity [OF assms(4) False assms(5,6) dz, of fx fy pa] by auto
  qed
next
  fix res
  assume r: "imConv self [fx, fy] pa dpc = Inr res"
  define conv where "conv = im_sizepix_x self * im_sizepix_y self / (dpc * (308572 * 10 ^ 13))\<^sup>2
                              / (fx * fy * pi / (4 * ln 2))"
  have cv: "imConv_conv self dpc fx fy = conv"
    by (simp add: imConv_conv_def conv_def pc_cm_def)
  obtain dum f_psf cimage where
    d: "getPSF (im_nx self) (im_ny self) [fx, fy] pa
       (Some [im_sizepix_x self / au_cm / dpc, im_sizepix_y self / au_cm / dpc]) = Inr dum"
    and f: "fft2 (map (map complex_of_real) (psf_psf dum)) = Inr f_psf"
    and c: "imConv_cimage self f_psf = Inr cimage"
    and res: "res = self\<lparr>im_image := scale_image conv cimage,
                im_imageJyppix := scale_image (10 ^ 23) (scale_image conv cimage),
                im_psf := Some (psf_psf dum), im_fwhm := [fx, fy], im_pa := pa, im_dpc := dpc\<rparr>"
    using imConv_Inr [OF r] unfolding cv by blast
  obtain dum' where "getPSF (im_nx self) (im_ny self) [fx, fy] pa
       (Some [im_sizepix_x self / au_cm / dpc, im_sizepix_y self / au_cm / dpc]) = Inr dum'"
    and "shape2 (psf_psf dum') (im_nx self) (im_ny self)"
    using getPSF_shape by blast
  then have sp: "shape2 (psf_psf dum) (im_nx self) (im_ny self)"
    using d by simp
  obtain f' where "fft2 (map (map complex_of_real) (psf_psf dum)) = Inr f'"
    and "shape2 f' (im_nx self) (im_ny self)"
    using fft2_total [OF shape2_map [OF sp] assms(5,6)] by blast
  then have sf: "shape2 f_psf (im_nx self) (im_ny self)"
    using f by simp
  have rec: "res = self\<lparr>im_image := im_image res,
                      im_imageJyppix := im_imageJyppix res,
                      im_psf := Some (psf_psf dum), im_fwhm := [fx, fy], im_pa := pa, im_dpc := dpc\<rparr>"
    by (simp add: res)
  have px: "\<forall>i<im_nx self. \<forall>j<im_ny self. psf_psf dum ! i ! j =
               (let x = (real i - real (im_nx self div 2)) * (im_sizepix_x self / (1496 * 10 ^ 10) / dpc);
                    y = (real j - real (im_ny self div 2)) * (im_sizepix_y self / (1496 * 10 ^ 10) / dpc);
                    sigmax = fx / (2 * sqrt (2 * ln 2));
                    sigmay = fy / (2 * sqrt (2 * ln 2));
                    sin_pa = sin (pa / 180 * pi - pi / 2);
                    cos_pa = cos (pa / 180 * pi - pi / 2);
                    xx = cos_pa * x - sin_pa * y;
                    yy = sin_pa * x + cos_pa * y
                in exp (- 0.5 * xx * xx / sigmax / sigmax - 0.5 * yy * yy / sigmay / sigmay)
                   / (1 / (2 * pi * sigmax * sigmay)))"
    using getPSF_pixels [OF d [unfolded au_cm_def]] by blast
  define K where "K = (\<lambda>plane ix iy.
     cmod ((\<Sum>k<im_nx self. \<Sum>l<im_ny self.
              ((\<Sum>i<im_nx self. \<Sum>j<im_ny self. complex_of_real (psf_psf dum ! i ! j)
                  * cis (- (2 * pi * (real k * real i / real (im_nx self) + real l * real j / real (im_ny self)))))
               * (\<Sum>i<im_nx self. \<Sum>j<im_ny self. complex_of_real (plane i j)
                  * cis (- (2 * pi * (real k * real i / real (im_nx self) + real l * real j / real (im_ny self))))))
              * cis (2 * pi * (real ((ix + im_nx self div 2) mod im_nx self) * real k / real (im_nx self)
                               + real ((iy + im_ny self div 2) mod im_ny self) * real l / real (im_ny self))))
           / of_nat (im_nx self * im_ny self)))"
  have kp: "p ! ix ! iy = K g ix iy"
    if "convolve_plane (im_nx self) (im_ny self) f_psf imag = Inr p"
      and "shape2 imag (im_nx self) (im_ny self)"
      and "ix < im_nx self" and "iy < im_ny self"
      and "\<And>i j. i < im_nx self \<Longrightarrow> j < im_ny self \<Longrightarrow> imag ! i ! j = g i j"
    for p imag ix iy g
    unfolding K_def
    by (rule convolve_plane_nth [OF sp that(2) assms(5,6) f that(1,3,4) refl that(5)])
  have img: "(case im_image self of
               Img0 \<Rightarrow> False
             | Img3 a \<Rightarrow>
                 (\<exists>c jy. im_image res = Img3 c \<and> im_imageJyppix res = Img3 jy \<and>
                    shape3 c (im_nx self) (im_ny self) (im_nfreq self) \<and>
                    shape3 jy (im_nx self) (im_ny self) (im_nfreq self) \<and>
                    (\<forall>ix<im_nx self. \<forall>iy<im_ny self. \<forall>ifreq<im_nfreq self.
                       c ! ix ! iy ! ifreq = K (\<lambda>i j. a ! i ! j ! ifreq) ix iy * conv \<and>
                       jy ! ix ! iy ! ifreq = c ! ix ! iy ! ifreq * 10 ^ 23))
             | Img4 a \<Rightarrow>
                 if im_nfreq self = 1
                 then im_nx self = 1 \<and> im_ny self = 1 \<and>
                   (\<exists>c jy. im_image res = Img3 c \<and> im_imageJyppix res = Img3 jy \<and>
                      shape3 c 1 1 4 \<and> shape3 jy 1 1 4 \<and>
                      (\<forall>k<4. c ! 0 ! 0 ! k = K (\<lambda>i j. a ! i ! j ! k ! 0) 0 0 * conv \<and>
                             jy ! 0 ! 0 ! k = c ! 0 ! 0 ! k * 10 ^ 23))
                 else
                   (\<exists>c jy. im_image res = Img4 c \<and> im_imageJyppix res = Img4 jy \<and>
                      shape4 c (im_nx self) (im_ny self) 4 (im_nfreq self) \<and>
                      shape4 jy (im_nx self) (im_ny self) 4 (im_nfreq self) \<and>
                      (\<forall>ix<im_nx self. \<forall>iy<im_ny self. \<forall>k<4. \<forall>ifreq<im_nfreq self.
                         c ! ix ! iy ! k ! ifreq
                         = K (\<lambda>i j. a ! i ! j ! k ! ifreq) ix iy * conv \<and>
                         jy ! ix ! iy ! k ! ifreq = c ! ix ! iy ! k ! ifreq * 10 ^ 23)))"
  proof (cases "im_image self")
    case Img0
    then show ?thesis
      using assms(4) by (simp add: cube_ok_def)
  next
    case (Img3 a)
    have ns: "\<not> im_stokes self"
      and sh: "shape3 a (im_nx self) (im_ny self) (im_nfreq self)"
      using assms(4) Img3 by (simp_all add: cube_ok_def)
    obtain planes where
      ci: "imConv_cimage self f_psf
            = Inr (Img3 (stack3 (im_nx self) (im_ny self) (im_nfreq self) planes))"
      and pl: "\<forall>ifreq<im_nfreq self.
             convolve_plane (im_nx self) (im_ny self) f_psf (map (map (\<lambda>c. c ! ifreq)) a)
             = Inr (planes ! ifreq)"
      using imConv_cimage_intensity [OF Img3 ns sh sf assms(5,6)] by blast
    let ?c = "map (map (map (\<lambda>v. v * conv)))
                 (stack3 (im_nx self) (im_ny self) (im_nfreq self) planes)"
    have cim: "cimage = Img3 (stack3 (im_nx self) (im_ny self) (im_nfreq self) planes)"
      using c ci by simp
    have i: "im_image res = Img3 ?c"
      by (simp add: res cim scale_image_def)
    have s: "shape3 ?c (im_nx self) (im_ny self) (im_nfreq self)"
      by (intro shape3_scale shape3_stack3)
    let ?jy = "map (map (map (\<lambda>v. v * 10 ^ 23))) ?c"
    have j: "im_imageJyppix res = Img3 ?jy"
      by (simp add: res cim scale_image_def)
    have sj: "shape3 ?jy (im_nx self) (im_ny self) (im_nfreq self)"
      by (rule shape3_scale [OF s])
    have ej: "?jy ! ix ! iy ! ifreq = ?c ! ix ! iy ! ifreq * 10 ^ 23"
      if "ix < im_nx self" "iy < im_ny self" "ifreq < im_nfreq self" for ix iy ifreq
      by (rule scale3_nth [OF s that])
    have e: "?c ! ix ! iy ! ifreq = K (\<lambda>i j. a ! i ! j ! ifreq) ix iy * conv"
      if "ix < im_nx self" "iy < im_ny self" "ifreq < im_nfreq self" for ix iy ifreq
    proof -
      have "?c ! ix ! iy ! ifreq = planes ! ifreq ! ix ! iy * conv"
        using that by (simp add: stack3_def)
      also have "planes ! ifreq ! ix ! iy = K (\<lambda>i j. a ! i ! j ! ifreq) ix iy"
      proof (rule kp [where imag = "map (map (\<lambda>c. c ! ifreq)) a"])
        show "convolve_plane (im_nx self) (im_ny self) f_psf (map (map (\<lambda>c. c ! ifreq)) a)
              = Inr (planes ! ifreq)"
          using pl that(3) by simp
        show "shape2 (map (map (\<lambda>c. c ! ifreq)) a) (im_nx self) (im_ny self)"
          by (rule shape3_plane [OF sh])
        show "ix < im_nx self" "iy < im_ny self"
          by (rule that(1), rule that(2))
        show "map (map (\<lambda>c. c ! ifreq)) a ! i ! j = a ! i ! j ! ifreq"
          if "i < im_nx self" "j < im_ny self" for i j
          by (rule plane_nth [OF sh that])
      qed
      finally show ?thesis .
    qed
    show ?thesis
      unfolding Img3 image.case using i j s sj e ej by blast
  next
    case (Img4 a)
    have st: "im_stokes self"
      and sh: "shape4 a (im_nx self) (im_ny self) 4 (im_nfreq self)"
      using assms(4) Img4 by (simp_all add: cube_ok_def)
    show ?thesis
    proof (cases "im_nfreq self = 1")
      case True
      have sh1: "shape4 a (im_nx self) (im_ny self) 4 1"
        using sh True by simp
      obtain planes where n: "im_nx self = 1" "im_ny self = 1"
        and ci: "cimage = Img3 (stack3 1 1 4 planes)"
        and pl: "\<forall>k<4. convolve_plane 1 1 f_psf (map (map (\<lambda>c. c ! k ! 0)) a) = Inr (planes ! k)"
        using imConv_cimage_stokes_single [OF Img4 st True sh1 sf assms(5,6) c] by blast
      let ?c = "map (map (map (\<lambda>v. v * conv))) (stack3 1 1 4 planes)"
      have i: "im_image res = Img3 ?c"
        by (simp add: res ci scale_image_def)
      have s: "shape3 ?c 1 1 4"
        by (intro shape3_scale shape3_stack3)
      let ?jy = "map (map (map (\<lambda>v. v * 10 ^ 23))) ?c"
      have j: "im_imageJyppix res = Img3 ?jy"
        by (simp add: res ci scale_image_def)
      have sj: "shape3 ?jy 1 1 4"
        by (rule shape3_scale [OF s])
      have ej: "?jy ! 0 ! 0 ! k = ?c ! 0 ! 0 ! k * 10 ^ 23" if "k < 4" for k
        by (rule scale3_nth [OF s _ _ that]) simp_all
      have e: "?c ! 0 ! 0 ! k = K (\<lambda>i j. a ! i ! j ! k ! 0) 0 0 * conv" if "k < 4" for k
      proof -
        have "?c ! 0 ! 0 ! k = planes ! k ! 0 ! 0 * conv"
          using that by (simp add: stack3_def)
        also have "planes ! k ! 0 ! 0 = K (\<lambda>i j. a ! i ! j ! k ! 0) 0 0"
        proof (rule kp [where imag = "map (map (\<lambda>c. c ! k ! 0)) a"])
          show "convolve_plane (im_nx self) (im_ny self) f_psf (map (map (\<lambda>c. c ! k ! 0)) a)
                = Inr (planes ! k)"
            using pl that n by simp
          show "shape2 (map (map (\<lambda>c. c ! k ! 0)) a) (im_nx self) (im_ny self)"
            by (rule shape4_plane [OF sh])
          show "0 < im_nx self" "0 < im_ny self"
            by (rule assms(5), rule assms(6))
          show "map (map (\<lambda>c. c ! k ! 0)) a ! i ! j = a ! i ! j ! k ! 0"
            if "i < im_nx self" "j < im_ny self" for i j
            by (rule plane_nth [OF shape4_shape3 [OF sh] that])
        qed
        finally show ?thesis .
      qed
      have "\<exists>c jy. im_image res = Img3 c \<and> im_imageJyppix res = Img3 jy \<and>
                      shape3 c 1 1 4 \<and> shape3 jy 1 1 4 \<and>
                      (\<forall>k<4. c ! 0 ! 0 ! k = K (\<lambda>i j. a ! i ! j ! k ! 0) 0 0 * conv \<and>
                             jy ! 0 ! 0 ! k = c ! 0 ! 0 ! k * 10 ^ 23)"
        using i j s sj e ej by blast
      then show ?thesis
        unfolding Img4 image.case using True n by simp
    next
      case False
      obtain planes where
        ci: "imConv_cimage self f_psf
              = Inr (Img4 (stack4 (im_nx self) (im_ny self) (im_nfreq self) planes))"
        and pl: "\<forall>ifreq<im_nfreq self. \<forall>k<4.
             convolve_plane (im_nx self) (im_ny self) f_psf (map (map (\<lambda>c. c ! k ! ifreq)) a)
             = Inr (planes ! ifreq ! k)"
        using imConv_cimage_stokes [OF Img4 st False sh sf assms(5,6)] by blast
      let ?c = "map (map (map (map (\<lambda>v. v * conv))))
                 (stack4 (im_nx self) (im_ny self) (im_nfreq self) planes)"
      have cim: "cimage = Img4 (stack4 (im_nx self) (im_ny self) (im_nfreq self) planes)"
        using c ci by simp
      have i: "im_image res = Img4 ?c"
        by (simp add: res cim scale_image_def)
      have s: "shape4 ?c (im_nx self) (im_ny self) 4 (im_nfreq self)"
        by (intro shape4_scale shape4_stack4)
      let ?jy = "map (map (map (map (\<lambda>v. v * 10 ^ 23)))) ?c"
      have j: "im_imageJyppix res = Img4 ?jy"
        by (simp add: res cim scale_image_def)
      have sj: "shape4 ?jy (im_nx self) (im_ny self) 4 (im_nfreq self)"
        by (rule shape4_scale [OF s])
      have ej: "?jy ! ix ! iy ! k ! ifreq = ?c ! ix ! iy ! k ! ifreq * 10 ^ 23"
        if "ix < im_nx self" "iy < im_ny self" "k < 4" "ifreq < im_nfreq self" for ix iy k ifreq
        by (rule scale4_nth [OF s that])
      have e: "?c ! ix ! iy ! k ! ifreq = K (\<lambda>i j. a ! i ! j ! k ! ifreq) ix iy * conv"
        if "ix < im_nx self" "iy < im_ny self" "k < 4" "ifreq < im_nfreq self" for ix iy k ifreq
      proof -
        have "?c ! ix ! iy ! k ! ifreq = planes ! ifreq ! k ! ix ! iy * conv"
          using that by (simp add: stack4_def)
        also have "planes ! ifreq ! k ! ix ! iy = K (\<lambda>i j. a ! i ! j ! k ! ifreq) ix iy"
        proof (rule kp [where imag = "map (map (\<lambda>c. c ! k ! ifreq)) a"])
          show "convolve_plane (im_nx self) (im_ny self) f_psf (map (map (\<lambda>c. c ! k ! ifreq)) a)
                = Inr (planes ! ifreq ! k)"
            using pl that(3,4) by simp
          show "shape2 (map (map (\<lambda>c. c ! k ! ifreq)) a) (im_nx self) (im_ny self)"
            by (rule shape4_plane [OF sh])
          show "ix < im_nx self" "iy < im_ny self"
            by (rule that(1), rule that(2))
          show "map (map (\<lambda>c. c ! k ! ifreq)) a ! i ! j = a ! i ! j ! k ! ifreq"
            if "i < im_nx self" "j < im_ny self" for i j
            by (rule plane_nth [OF shape4_shape3 [OF sh] that])
        qed
        finally show ?thesis .
      qed
      have "\<exists>c jy. im_image res = Img4 c \<and> im_imageJyppix res = Img4 jy \<and>
                      shape4 c (im_nx self) (im_ny self) 4 (im_nfreq self) \<and>
                      shape4 jy (im_nx self) (im_ny self) 4 (im_nfreq self) \<and>
                      (\<forall>ix<im_nx self. \<forall>iy<im_ny self. \<forall>k<4. \<forall>ifreq<im_nfreq self.
                         c ! ix ! iy ! k ! ifreq
                         = K (\<lambda>i j. a ! i ! j ! k ! ifreq) ix iy * conv \<and>
                         jy ! ix ! iy ! k ! ifreq = c ! ix ! iy ! k ! ifreq * 10 ^ 23)"
        using i j s sj e ej by blast
      then show ?thesis
        unfolding Img4 image.case using False by simp
    qed
  qed
  show "\<exists>psf. ?B res psf"
    apply (rule exI [of _ "psf_psf dum"])
    unfolding Let_def
    using rec sp px [unfolded Let_def] img [unfolded K_def conv_def]
    by (intro conjI) assumption+
qed

text \<open>Witness of C8: the uniform cube of 2 by 2 pixels, \<open>fwhm = (1, 1)\<close>, position angle 0,
  1 pc.\<close>

theorem imConv_result_witness:
  "(0::real) < 1 \<and> cube_ok (uniform_cube 2 2) \<and>
   0 < im_nx (uniform_cube 2 2) \<and> 0 < im_ny (uniform_cube 2 2) \<and>
   \<not> (im_stokes (uniform_cube 2 2) \<and> im_nfreq (uniform_cube 2 2) = 1) \<and>
   \<not> isl (imConv (uniform_cube 2 2) [1, 1] 0 1) \<and>
   (\<exists>psf.
        (let nx = im_nx (uniform_cube 2 2); ny = im_ny (uniform_cube 2 2); nfreq = im_nfreq (uniform_cube 2 2);
             conv = im_sizepix_x (uniform_cube 2 2) * im_sizepix_y (uniform_cube 2 2) / (1 * (308572 * 10 ^ 13))\<^sup>2
                    / (1 * 1 * pi / (4 * ln 2));
             F = (\<lambda>a k l. \<Sum>i<nx. \<Sum>j<ny. complex_of_real (a i j)
                    * cis (- (2 * pi * (real k * real i / real nx + real l * real j / real ny))));
             G = (\<lambda>b m n. (\<Sum>k<nx. \<Sum>l<ny. b k l
                    * cis (2 * pi * (real m * real k / real nx + real n * real l / real ny)))
                    / of_nat (nx * ny));
             convolved = (\<lambda>plane ix iy.
                    cmod (G (\<lambda>k l. F (\<lambda>i j. psf ! i ! j) k l * F plane k l)
                            ((ix + nx div 2) mod nx) ((iy + ny div 2) mod ny)))
         in projr (imConv (uniform_cube 2 2) [1, 1] 0 1) = (uniform_cube 2 2)\<lparr>im_image := im_image (projr (imConv (uniform_cube 2 2) [1, 1] 0 1)),
                      im_imageJyppix := im_imageJyppix (projr (imConv (uniform_cube 2 2) [1, 1] 0 1)),
                      im_psf := Some psf, im_fwhm := [1, 1], im_pa := 0, im_dpc := 1\<rparr> \<and>
            shape2 psf nx ny \<and>
            (\<forall>i<nx. \<forall>j<ny. psf ! i ! j =
               (let x = (real i - real (nx div 2)) * (im_sizepix_x (uniform_cube 2 2) / (1496 * 10 ^ 10) / 1);
                    y = (real j - real (ny div 2)) * (im_sizepix_y (uniform_cube 2 2) / (1496 * 10 ^ 10) / 1);
                    sigmax = 1 / (2 * sqrt (2 * ln 2));
                    sigmay = 1 / (2 * sqrt (2 * ln 2));
                    sin_pa = sin (0 / 180 * pi - pi / 2);
                    cos_pa = cos (0 / 180 * pi - pi / 2);
                    xx = cos_pa * x - sin_pa * y;
                    yy = sin_pa * x + cos_pa * y
                in exp (- 0.5 * xx * xx / sigmax / sigmax - 0.5 * yy * yy / sigmay / sigmay)
                   / (1 / (2 * pi * sigmax * sigmay)))) \<and>
            (case im_image (uniform_cube 2 2) of
               Img0 \<Rightarrow> False
             | Img3 a \<Rightarrow>
                 (\<exists>c jy. im_image (projr (imConv (uniform_cube 2 2) [1, 1] 0 1)) = Img3 c \<and> im_imageJyppix (projr (imConv (uniform_cube 2 2) [1, 1] 0 1)) = Img3 jy \<and>
                    shape3 c nx ny nfreq \<and> shape3 jy nx ny nfreq \<and>
                    (\<forall>ix<nx. \<forall>iy<ny. \<forall>ifreq<nfreq.
                       c ! ix ! iy ! ifreq = convolved (\<lambda>i j. a ! i ! j ! ifreq) ix iy * conv \<and>
                       jy ! ix ! iy ! ifreq = c ! ix ! iy ! ifreq * 10 ^ 23))
             | Img4 a \<Rightarrow>
                 if nfreq = 1
                 then nx = 1 \<and> ny = 1 \<and>
                   (\<exists>c jy. im_image (projr (imConv (uniform_cube 2 2) [1, 1] 0 1)) = Img3 c \<and> im_imageJyppix (projr (imConv (uniform_cube 2 2) [1, 1] 0 1)) = Img3 jy \<and>
                      shape3 c 1 1 4 \<and> shape3 jy 1 1 4 \<and>
                      (\<forall>k<4. c ! 0 ! 0 ! k = convolved (\<lambda>i j. a ! i ! j ! k ! 0) 0 0 * conv \<and>
                             jy ! 0 ! 0 ! k = c ! 0 ! 0 ! k * 10 ^ 23))
                 else
                   (\<exists>c jy. im_image (projr (imConv (uniform_cube 2 2) [1, 1] 0 1)) = Img4 c \<and> im_imageJyppix (projr (imConv (uniform_cube 2 2) [1, 1] 0 1)) = Img4 jy \<and>
                      shape4 c nx ny 4 nfreq \<and> shape4 jy nx ny 4 nfreq \<and>
                      (\<forall>ix<nx. \<forall>iy<ny. \<forall>k<4. \<forall>ifreq<nfreq.
                         c ! ix ! iy ! k ! ifreq
                         = convolved (\<lambda>i j. a ! i ! j ! k ! ifreq) ix iy * conv \<and>
                         jy ! ix ! iy ! k ! ifreq = c ! ix ! iy ! k ! ifreq * 10 ^ 23)))))"
proof -
  let ?self = "uniform_cube 2 2"
  have h: "cube_ok ?self" "0 < im_nx ?self" "0 < im_ny ?self"
    by (simp_all add: cube_ok_def loader_eval shape3_def)
  have ns: "\<not> (im_stokes ?self \<and> im_nfreq ?self = 1)"
    by (simp add: loader_eval)
  have p: "(0::real) < 1"
    by simp
  note T = imConv_result [OF p p p h, of 0]
  have ret: "\<not> isl (imConv ?self [1, 1] 0 1)"
    using conjunct1 [OF T] ns by (rule mp)
  then have r: "imConv ?self [1, 1] 0 1 = Inr (projr (imConv ?self [1, 1] 0 1))"
    by simp
  note B = mp [OF spec [OF conjunct2 [OF T]] r]
  show ?thesis
    using p h ns ret B by (intro conjI) assumption+
qed

subsection \<open>A single frequency\<close>

text \<open>The Stokes cube of 2 by 2 pixels with its image squeezed to rank 3, shape
  \<^verbatim>\<open>[nx, ny, 4]\<close>: the layout that the loader's commented-out \<^verbatim>\<open>squeeze\<close> would
  produce for one frequency.\<close>

definition squeezed_stokes_cube :: radmc3dImage where
  "squeezed_stokes_cube =
     (stokes_cube 2 2)\<lparr>im_image := Img3 [[[1, 0, 0, 0], [1, 0, 0, 0]], [[1, 0, 0, 0], [1, 0, 0, 0]]]\<rparr>"

text \<open>
  Claim C4. For the Stokes cube of 2 by 2 pixels with one frequency, as the loader builds
  it (rank 4, shape \<^verbatim>\<open>[2, 2, 4, 1]\<close>), \<^verbatim>\<open>imConv\<close> takes the branch \<^verbatim>\<open>nfreq==1\<close>,
  whose index \<^verbatim>\<open>self.image[:,:,istokes]\<close> leaves the frequency axis in place: the slice
  has rank 3, \<^verbatim>\<open>[2, 2, 1]\<close>, the transform runs over its last two axes (y and frequency),
  the product with the kernel broadcasts to \<^verbatim>\<open>[2, 2, 2]\<close>, and the assignment into the
  plane \<^verbatim>\<open>cimage[:,:,istokes]\<close> raises \<^verbatim>\<open>ValueError\<close>. No output plane is computed.
\<close>

theorem imConv_stokes_single_frequency:
  "imConv (stokes_cube 2 2) [1, 1] 0 1 = Inl ValueError"
  by (simp add: loader_eval stokes_eval imConv_eval dft2_def ifftshift3_def ifftshift2_def)

text \<open>On the squeezed layout the same branch indexes a plane and the call returns: the
  branch was written for an image without the frequency axis.\<close>

lemma imConv_squeezed_stokes:
  "\<not> isl (imConv squeezed_stokes_cube [1, 1] 0 1)"
  by (simp add: squeezed_stokes_cube_def loader_eval stokes_eval imConv_eval dft2_def ifftshift2_def)

section \<open>The coronographic mask: \<^verbatim>\<open>cmask\<close>\<close>

text \<open>A \<^verbatim>\<open>for\<close> loop that updates a state and stops at the first exception.\<close>

primrec foldE :: "('s \<Rightarrow> 'a \<Rightarrow> error + 's) \<Rightarrow> 'a list \<Rightarrow> 's \<Rightarrow> error + 's" where
  "foldE f [] s = Inr s"
| "foldE f (x # xs) s = bindE (f s x) (foldE f xs)"

text \<open>The entries of a row selected by the boolean mask \<open>ii\<close> replaced through \<open>z\<close>.\<close>

definition zero_masked :: "bool list \<Rightarrow> 'a list \<Rightarrow> ('a \<Rightarrow> 'a) \<Rightarrow> 'a list" where
  "zero_masked ii row z = map (\<lambda>(b, c). if b then z c else c) (zip ii row)"

text \<open>
  \<^verbatim>\<open>res.image[ix,ii,:] = 0.0\<close> (the branch \<^verbatim>\<open>nfreq != 1\<close>) and
  \<^verbatim>\<open>res.image[ix,ii] = 0.0\<close> (the branch \<^verbatim>\<open>nfreq == 1\<close>). On an array of rank 3 or 4
  both set every entry below \<^verbatim>\<open>[ix, iy]\<close> to 0 for the \<open>iy\<close> that the mask selects; the
  index \<open>ix\<close> must be within the first axis and the mask as long as the second
  (\<^verbatim>\<open>IndexError\<close>). The integer of a fresh object supports no item assignment
  (\<^verbatim>\<open>TypeError\<close>).
\<close>

definition cmask_assign :: "image \<Rightarrow> nat \<Rightarrow> bool list \<Rightarrow> error + image" where
  "cmask_assign img ix ii =
     (case img of
        Img0 \<Rightarrow> Inl TypeError
      | Img3 a \<Rightarrow>
          if ix < length a \<and> length ii = length (a ! ix)
          then Inr (Img3 (a[ix := zero_masked ii (a ! ix) (map (\<lambda>_. 0))]))
          else Inl IndexError
      | Img4 a \<Rightarrow>
          if ix < length a \<and> length ii = length (a ! ix)
          then Inr (Img4 (a[ix := zero_masked ii (a ! ix) (map (map (\<lambda>_. 0)))]))
          else Inl IndexError)"

text \<open>The body of the loop over \<^verbatim>\<open>ix\<close>: \<^verbatim>\<open>r = sqrt(im.y**2 + im.x[ix]**2)\<close>,
  \<^verbatim>\<open>ii = r<=crad\<close> and the assignment.\<close>

definition cmask_row :: "radmc3dImage \<Rightarrow> real \<Rightarrow> image \<Rightarrow> nat \<Rightarrow> error + image" where
  "cmask_row im crad img ix =
     bindE (item (im_x im) ix) (\<lambda>xi.
     let r = map (\<lambda>yj. sqrt (yj\<^sup>2 + xi\<^sup>2)) (im_y im);
         ii = map (\<lambda>rj. rj \<le> crad) r
     in cmask_assign img ix ii)"

text \<open>
  \<^verbatim>\<open>cmask(im, rad, au, arcsec, dpc)\<close>; \<open>dpc\<close> defaults to \<^verbatim>\<open>None\<close>. With both
  \<^verbatim>\<open>au\<close> and \<^verbatim>\<open>arcsec\<close> set the function prints an error and returns \<^verbatim>\<open>None\<close>
  (the result \<open>Inr None\<close>). The result is a deep copy of \<^verbatim>\<open>im\<close>, here the value itself,
  whose image the loop updates.
\<close>

definition cmask ::
  "radmc3dImage \<Rightarrow> real \<Rightarrow> bool \<Rightarrow> bool \<Rightarrow> real option \<Rightarrow> error + radmc3dImage option" where
  "cmask im rad au arcsec dpc =
     (if au \<and> arcsec then Inr None
      else
        bindE (if au then Inr (rad * au_cm)
               else if arcsec then
                 (case dpc of None \<Rightarrow> Inl TypeError | Some d \<Rightarrow> Inr (rad * au_cm * d))
               else Inr (rad * im_sizepix_x im)) (\<lambda>crad.
        bindE (foldE (cmask_row im crad) [0..<im_nx im] (im_image im)) (\<lambda>img.
        Inr (Some (im\<lparr>im_image := img\<rparr>)))))"

text \<open>The values of all channels of pixel \<open>(ix, iy)\<close>.\<close>

definition channels :: "image \<Rightarrow> nat \<Rightarrow> nat \<Rightarrow> real list" where
  "channels img ix iy =
     (case img of Img0 \<Rightarrow> [] | Img3 a \<Rightarrow> a ! ix ! iy | Img4 a \<Rightarrow> concat (a ! ix ! iy))"

subsection \<open>The masked pixels\<close>

lemma foldE_append: "foldE f (xs @ ys) s = bindE (foldE f xs s) (foldE f ys)"
proof (induction xs arbitrary: s)
  case Nil
  then show ?case by simp
next
  case (Cons x xs)
  then show ?case by (cases "f s x") simp_all
qed

text \<open>The array when the loop has run for \<open>ix < n\<close>: the rows below \<open>n\<close> are masked with
  the row's own mask \<open>sel ix\<close>, the others are as they were.\<close>

definition mask_rows :: "('a \<Rightarrow> 'a) \<Rightarrow> (nat \<Rightarrow> bool list) \<Rightarrow> nat \<Rightarrow> 'a list list \<Rightarrow> 'a list list" where
  "mask_rows z sel n a =
     map (\<lambda>ix. if ix < n then zero_masked (sel ix) (a ! ix) z else a ! ix) [0..<length a]"

lemma length_mask_rows [simp]: "length (mask_rows z sel n a) = length a"
  by (simp add: mask_rows_def)

lemma mask_rows_0: "mask_rows z sel 0 a = a"
  by (simp add: mask_rows_def map_nth)

lemma mask_rows_step:
  assumes "n < length a"
  shows "(mask_rows z sel n a)[n := zero_masked (sel n) (mask_rows z sel n a ! n) z]
         = mask_rows z sel (Suc n) a"
  using assms by (intro nth_equalityI) (auto simp: mask_rows_def nth_list_update less_Suc_eq)

lemma mask_rows_nth:
  assumes "ix < length a" and "iy < length (a ! ix)" and "length (sel ix) = length (a ! ix)"
  shows "mask_rows z sel (length a) a ! ix ! iy
         = (if sel ix ! iy then z (a ! ix ! iy) else a ! ix ! iy)"
  using assms by (simp add: mask_rows_def zero_masked_def)

lemma mask_rows_all:
  assumes "\<forall>row\<in>set a. length row = n2 \<and> (\<forall>c\<in>set row. P c)"
    and "\<And>c. P c \<Longrightarrow> P (z c)" and "\<And>ix. length (sel ix) = n2"
  shows "\<forall>row\<in>set (mask_rows z sel n a). length row = n2 \<and> (\<forall>c\<in>set row. P c)"
proof
  fix row
  assume "row \<in> set (mask_rows z sel n a)"
  then obtain ix where ix: "ix < length a"
    and row: "row = (if ix < n then zero_masked (sel ix) (a ! ix) z else a ! ix)"
    by (auto simp: mask_rows_def)
  have a: "length (a ! ix) = n2" "\<forall>c\<in>set (a ! ix). P c"
    using assms(1) nth_mem [OF ix] by auto
  show "length row = n2 \<and> (\<forall>c\<in>set row. P c)"
  proof (cases "ix < n")
    case False
    then show ?thesis using a row by simp
  next
    case True
    then have row': "row = zero_masked (sel ix) (a ! ix) z"
      using row by simp
    have "length row = n2"
      using a(1) assms(3) by (simp add: row' zero_masked_def)
    moreover have "P c" if "c \<in> set row" for c
      using that a(2) assms(2) unfolding row' zero_masked_def
      by (auto elim!: in_set_zipE split: if_splits)
    ultimately show ?thesis by blast
  qed
qed

text \<open>The mask \<^verbatim>\<open>ii\<close> of image column \<open>ix\<close>.\<close>

definition radius_mask :: "radmc3dImage \<Rightarrow> real \<Rightarrow> nat \<Rightarrow> bool list" where
  "radius_mask im crad ix = map (\<lambda>yj. sqrt (yj\<^sup>2 + (im_x im ! ix)\<^sup>2) \<le> crad) (im_y im)"

lemma cmask_loop3:
  assumes "length (im_x im) = length a" and "\<forall>row\<in>set a. length row = length (im_y im)"
    and "n \<le> length a"
  shows "foldE (cmask_row im crad) [0..<n] (Img3 a)
         = Inr (Img3 (mask_rows (map (\<lambda>_. 0)) (radius_mask im crad) n a))"
  using assms(3)
proof (induction n)
  case 0
  then show ?case by (simp add: mask_rows_0)
next
  case (Suc n)
  then have n: "n < length a" by simp
  have row: "length (mask_rows (map (\<lambda>_. 0)) (radius_mask im crad) n a ! n) = length (im_y im)"
    using n assms(2) by (simp add: mask_rows_def)
  have step: "cmask_row im crad (Img3 (mask_rows (map (\<lambda>_. 0)) (radius_mask im crad) n a)) n
      = Inr (Img3 (mask_rows (map (\<lambda>_. 0)) (radius_mask im crad) (Suc n) a))"
    using n assms(1) row
    by (simp add: cmask_row_def cmask_assign_def Let_def mask_rows_step [symmetric] radius_mask_def comp_def)
  show ?case
    using Suc n step by (simp add: foldE_append)
qed

lemma cmask_loop4:
  assumes "length (im_x im) = length a" and "\<forall>row\<in>set a. length row = length (im_y im)"
    and "n \<le> length a"
  shows "foldE (cmask_row im crad) [0..<n] (Img4 a)
         = Inr (Img4 (mask_rows (map (map (\<lambda>_. 0))) (radius_mask im crad) n a))"
  using assms(3)
proof (induction n)
  case 0
  then show ?case by (simp add: mask_rows_0)
next
  case (Suc n)
  then have n: "n < length a" by simp
  have row: "length (mask_rows (map (map (\<lambda>_. 0))) (radius_mask im crad) n a ! n) = length (im_y im)"
    using n assms(2) by (simp add: mask_rows_def)
  have step: "cmask_row im crad (Img4 (mask_rows (map (map (\<lambda>_. 0))) (radius_mask im crad) n a)) n
      = Inr (Img4 (mask_rows (map (map (\<lambda>_. 0))) (radius_mask im crad) (Suc n) a))"
    using n assms(1) row
    by (simp add: cmask_row_def cmask_assign_def Let_def mask_rows_step [symmetric] radius_mask_def comp_def)
  show ?case
    using Suc n step by (simp add: foldE_append)
qed


lemma cmask_Some:
  assumes "cmask im rad au arcsec dpc = Inr (Some res)"
  shows "res = im\<lparr>im_image := im_image res\<rparr>"
  using assms unfolding cmask_def by (auto simp: bindE_eq_Inr split: if_splits)

lemma cmask_masked:
  assumes "cube_ok im" and "\<not> (au \<and> arcsec)" and "arcsec \<longrightarrow> dpc \<noteq> None"
  shows "\<exists>res. cmask im rad au arcsec dpc = Inr (Some res) \<and>
     res = im\<lparr>im_image := im_image res\<rparr> \<and> cube_ok res \<and>
     (let crad = (if au then rad * (1496 * 10 ^ 10)
                  else if arcsec then rad * (1496 * 10 ^ 10) * the dpc
                  else rad * im_sizepix_x im)
      in \<forall>ix<im_nx im. \<forall>iy<im_ny im.
           channels (im_image res) ix iy =
             (if sqrt ((im_x im ! ix)\<^sup>2 + (im_y im ! iy)\<^sup>2) \<le> crad
              then map (\<lambda>_. 0) (channels (im_image im) ix iy)
              else channels (im_image im) ix iy))"
proof -
  define crad where "crad = (if au then rad * (1496 * 10 ^ 10)
                  else if arcsec then rad * (1496 * 10 ^ 10) * the dpc
                  else rad * im_sizepix_x im)"
  have c: "(if au then Inr (rad * au_cm)
               else if arcsec then
                 (case dpc of None \<Rightarrow> Inl TypeError | Some d \<Rightarrow> Inr (rad * au_cm * d))
               else Inr (rad * im_sizepix_x im)) = Inr crad"
    using assms(2,3) by (auto simp: crad_def au_cm_def)
  have lx: "length (im_x im) = im_nx im" and ly: "length (im_y im) = im_ny im"
    using assms(1) by (simp_all add: cube_ok_def pixel_axis_def)
  have sel: "radius_mask im crad ix ! iy
        \<longleftrightarrow> sqrt ((im_x im ! ix)\<^sup>2 + (im_y im ! iy)\<^sup>2) \<le> crad"
    if "iy < im_ny im" for ix iy
    using that ly by (simp add: radius_mask_def add.commute)
  have lsel: "length (radius_mask im crad ix) = im_ny im" for ix
    using ly by (simp add: radius_mask_def)
  show ?thesis
  proof (cases "im_image im")
    case Img0
    then show ?thesis
      using assms(1) by (simp add: cube_ok_def)
  next
    case (Img3 a)
    then have sh: "shape3 a (im_nx im) (im_ny im) (im_nwav im)" and ns: "\<not> im_stokes im"
      using assms(1) by (simp_all add: cube_ok_def)
    have la: "length a = im_nx im" and rows: "\<forall>row\<in>set a. length row = length (im_y im)"
      using sh ly by (auto simp: shape3_def list_all_iff)
    let ?b = "mask_rows (map (\<lambda>_. 0)) (radius_mask im crad) (im_nx im) a"
    have loop: "foldE (cmask_row im crad) [0..<im_nx im] (im_image im) = Inr (Img3 ?b)"
      unfolding Img3 using cmask_loop3 [of im a "im_nx im" crad] lx la rows by simp
    have r: "cmask im rad au arcsec dpc = Inr (Some (im\<lparr>im_image := Img3 ?b\<rparr>))"
      unfolding cmask_def using assms(2) c loop by simp
    have entry: "?b ! ix ! iy = (if sqrt ((im_x im ! ix)\<^sup>2 + (im_y im ! iy)\<^sup>2) \<le> crad
              then map (\<lambda>_. 0) (a ! ix ! iy) else a ! ix ! iy)"
      if "ix < im_nx im" "iy < im_ny im" for ix iy
    proof -
      have "length (a ! ix) = im_ny im"
        using that(1) la rows ly by simp
      then show ?thesis
        using mask_rows_nth [of ix a iy "radius_mask im crad" "map (\<lambda>_. 0)"] that la lsel sel
        by simp
    qed
    have sh': "shape3 ?b (im_nx im) (im_ny im) (im_nwav im)"
    proof -
      have pre: "\<forall>row\<in>set a. length row = im_ny im \<and> (\<forall>c\<in>set row. length c = im_nwav im)"
        using sh unfolding shape3_def list_all_iff by blast
      have "\<forall>row\<in>set ?b. length row = im_ny im \<and> (\<forall>c\<in>set row. length c = im_nwav im)"
        by (rule mask_rows_all [OF pre _ lsel]) simp
      then show ?thesis
        unfolding shape3_def list_all_iff using la by simp
    qed
    have ok: "cube_ok (im\<lparr>im_image := Img3 ?b\<rparr>)"
      using assms(1) sh' ns by (simp add: cube_ok_def Img3)
    show ?thesis
      unfolding crad_def [symmetric] Let_def
    proof (rule exI [of _ "im\<lparr>im_image := Img3 ?b\<rparr>"], intro conjI allI impI)
      show "cmask im rad au arcsec dpc = Inr (Some (im\<lparr>im_image := Img3 ?b\<rparr>))"
        by (rule r)
      show "im\<lparr>im_image := Img3 ?b\<rparr>
            = im\<lparr>im_image := im_image (im\<lparr>im_image := Img3 ?b\<rparr>)\<rparr>"
        by simp
      show "cube_ok (im\<lparr>im_image := Img3 ?b\<rparr>)"
        by (rule ok)
      fix ix iy
      assume "ix < im_nx im" and "iy < im_ny im"
      then show "channels (im_image (im\<lparr>im_image := Img3 ?b\<rparr>)) ix iy =
             (if sqrt ((im_x im ! ix)\<^sup>2 + (im_y im ! iy)\<^sup>2) \<le> crad
              then map (\<lambda>_. 0) (channels (im_image im) ix iy)
              else channels (im_image im) ix iy)"
        by (simp add: channels_def Img3 entry)
    qed
  next
    case (Img4 a)
    then have sh: "shape4 a (im_nx im) (im_ny im) 4 (im_nwav im)" and st: "im_stokes im"
      using assms(1) by (simp_all add: cube_ok_def)
    have la: "length a = im_nx im" and rows: "\<forall>row\<in>set a. length row = length (im_y im)"
      using sh ly by (auto simp: shape4_def shape3_def list_all_iff)
    let ?b = "mask_rows (map (map (\<lambda>_. 0))) (radius_mask im crad) (im_nx im) a"
    have loop: "foldE (cmask_row im crad) [0..<im_nx im] (im_image im) = Inr (Img4 ?b)"
      unfolding Img4 using cmask_loop4 [of im a "im_nx im" crad] lx la rows by simp
    have r: "cmask im rad au arcsec dpc = Inr (Some (im\<lparr>im_image := Img4 ?b\<rparr>))"
      unfolding cmask_def using assms(2) c loop by simp
    have entry: "concat (?b ! ix ! iy) = (if sqrt ((im_x im ! ix)\<^sup>2 + (im_y im ! iy)\<^sup>2) \<le> crad
              then map (\<lambda>_. 0) (concat (a ! ix ! iy)) else concat (a ! ix ! iy))"
      if "ix < im_nx im" "iy < im_ny im" for ix iy
    proof -
      have "length (a ! ix) = im_ny im"
        using that(1) la rows ly by simp
      then show ?thesis
        using mask_rows_nth [of ix a iy "radius_mask im crad" "map (map (\<lambda>_. 0))"] that la lsel sel
        by (simp add: map_concat)
    qed
    have sh': "shape4 ?b (im_nx im) (im_ny im) 4 (im_nwav im)"
    proof -
      define P where "P = (\<lambda>c :: real list list. length c = 4 \<and> (\<forall>r\<in>set c. length r = im_nwav im))"
      have pre: "\<forall>row\<in>set a. length row = im_ny im \<and> (\<forall>c\<in>set row. P c)"
        using sh unfolding shape4_def shape3_def list_all_iff P_def by blast
      have pz: "P (map (map (\<lambda>_. 0)) c)" if "P c" for c
        using that unfolding P_def by simp
      have "\<forall>row\<in>set ?b. length row = im_ny im \<and> (\<forall>c\<in>set row. P c)"
        by (rule mask_rows_all [OF pre pz lsel])
      then show ?thesis
        unfolding shape4_def shape3_def list_all_iff P_def using la by simp
    qed
    have ok: "cube_ok (im\<lparr>im_image := Img4 ?b\<rparr>)"
      using assms(1) sh' st by (simp add: cube_ok_def Img4)
    show ?thesis
      unfolding crad_def [symmetric] Let_def
    proof (rule exI [of _ "im\<lparr>im_image := Img4 ?b\<rparr>"], intro conjI allI impI)
      show "cmask im rad au arcsec dpc = Inr (Some (im\<lparr>im_image := Img4 ?b\<rparr>))"
        by (rule r)
      show "im\<lparr>im_image := Img4 ?b\<rparr>
            = im\<lparr>im_image := im_image (im\<lparr>im_image := Img4 ?b\<rparr>)\<rparr>"
        by simp
      show "cube_ok (im\<lparr>im_image := Img4 ?b\<rparr>)"
        by (rule ok)
      fix ix iy
      assume "ix < im_nx im" and "iy < im_ny im"
      then show "channels (im_image (im\<lparr>im_image := Img4 ?b\<rparr>)) ix iy =
             (if sqrt ((im_x im ! ix)\<^sup>2 + (im_y im ! iy)\<^sup>2) \<le> crad
              then map (\<lambda>_. 0) (channels (im_image im) ix iy)
              else channels (im_image im) ix iy)"
        by (simp add: channels_def Img4 entry)
    qed
  qed
qed

text \<open>
  Claim C10, as the code has it. For every cube with the loader's invariant: when \<^verbatim>\<open>au\<close>
  and \<^verbatim>\<open>arcsec\<close> are both set, \<^verbatim>\<open>cmask\<close> returns \<^verbatim>\<open>None\<close>, no cube; otherwise (and
  with \<^verbatim>\<open>dpc\<close> given when \<^verbatim>\<open>arcsec\<close> is set) it returns a cube that differs from the
  input in its image only, in which every channel of pixel \<open>(ix, iy)\<close> is 0 when
  \<open>sqrt (x[ix]^2 + y[iy]^2) \<le> crad\<close> and keeps its value otherwise, where \<open>crad\<close> is
  \<open>rad * 1.496e13\<close> for \<^verbatim>\<open>au\<close>, \<open>rad * 1.496e13 * dpc\<close> for \<^verbatim>\<open>arcsec\<close> and
  \<open>rad * sizepix_x\<close> with neither.
\<close>

theorem cmask_pixels:
  assumes "cube_ok im"
  shows "(au \<and> arcsec \<longrightarrow> cmask im rad au arcsec dpc = Inr None) \<and>
         (\<not> (au \<and> arcsec) \<and> (arcsec \<longrightarrow> dpc \<noteq> None) \<longrightarrow>
            (\<exists>res. cmask im rad au arcsec dpc = Inr (Some res) \<and>
               res = im\<lparr>im_image := im_image res\<rparr> \<and> cube_ok res \<and>
               (let crad = (if au then rad * (1496 * 10 ^ 10)
                            else if arcsec then rad * (1496 * 10 ^ 10) * the dpc
                            else rad * im_sizepix_x im)
                in \<forall>ix<im_nx im. \<forall>iy<im_ny im.
                     channels (im_image res) ix iy =
                       (if sqrt ((im_x im ! ix)\<^sup>2 + (im_y im ! iy)\<^sup>2) \<le> crad
                        then map (\<lambda>_. 0) (channels (im_image im) ix iy)
                        else channels (im_image im) ix iy))))"
proof (intro conjI impI)
  assume "au \<and> arcsec"
  then show "cmask im rad au arcsec dpc = Inr None"
    by (simp add: cmask_def)
next
  assume h: "\<not> (au \<and> arcsec) \<and> (arcsec \<longrightarrow> dpc \<noteq> None)"
  then have 1: "\<not> (au \<and> arcsec)" and 2: "arcsec \<longrightarrow> dpc \<noteq> None"
    by blast+
  show "\<exists>res. cmask im rad au arcsec dpc = Inr (Some res) \<and>
               res = im\<lparr>im_image := im_image res\<rparr> \<and> cube_ok res \<and>
               (let crad = (if au then rad * (1496 * 10 ^ 10)
                            else if arcsec then rad * (1496 * 10 ^ 10) * the dpc
                            else rad * im_sizepix_x im)
                in \<forall>ix<im_nx im. \<forall>iy<im_ny im.
                     channels (im_image res) ix iy =
                       (if sqrt ((im_x im ! ix)\<^sup>2 + (im_y im ! iy)\<^sup>2) \<le> crad
                        then map (\<lambda>_. 0) (channels (im_image im) ix iy)
                        else channels (im_image im) ix iy))"
    by (rule cmask_masked [OF assms 1 2])
qed

lemma cube_ok_uniform_3x3: "cube_ok (uniform_cube 3 3)"
  by (simp add: cube_ok_def loader_eval shape3_def)

text \<open>Witness of C10: the uniform 3 by 3 cube, a radius of 0.1 arcsec at 1 pc, once with
  both flags and once with \<^verbatim>\<open>arcsec\<close> alone.\<close>

theorem cmask_pixels_witness:
  "cube_ok (uniform_cube 3 3) \<and>
   cmask (uniform_cube 3 3) (1 / 10) True True (Some 1) = Inr None \<and>
   \<not> (False \<and> True) \<and> Some (1::real) \<noteq> None \<and>
   (\<exists>res. cmask (uniform_cube 3 3) (1 / 10) False True (Some 1) = Inr (Some res) \<and>
      res = (uniform_cube 3 3)\<lparr>im_image := im_image res\<rparr> \<and> cube_ok res \<and>
      (\<forall>ix<im_nx (uniform_cube 3 3). \<forall>iy<im_ny (uniform_cube 3 3).
          channels (im_image res) ix iy =
            (if sqrt ((im_x (uniform_cube 3 3) ! ix)\<^sup>2 + (im_y (uniform_cube 3 3) ! iy)\<^sup>2)
                \<le> 1 / 10 * (1496 * 10 ^ 10) * 1
             then map (\<lambda>_. 0) (channels (im_image (uniform_cube 3 3)) ix iy)
             else channels (im_image (uniform_cube 3 3)) ix iy)))"
  using cmask_pixels [OF cube_ok_uniform_3x3, of True True "1 / 10" "Some 1"]
    cmask_pixels [OF cube_ok_uniform_3x3, of False True "1 / 10" "Some 1"]
    cube_ok_uniform_3x3
  by (simp add: Let_def)

text \<open>Counterexample to C10 as stated: with \<^verbatim>\<open>au\<close> and \<^verbatim>\<open>arcsec\<close> both set the call
  on the uniform 2 by 2 cube returns \<^verbatim>\<open>None\<close>, not a masked cube.\<close>

theorem cmask_pixels_counterexample:
  "cube_ok (uniform_cube 2 2) \<and> cmask (uniform_cube 2 2) 1 True True (Some 1) = Inr None"
  by (simp add: cmask_def cube_ok_def loader_eval shape3_def)

section \<open>Objects and arrays in a store\<close>

text \<open>
  Whether a derived cube shares data with its source is a question about Python objects,
  not about values: an attribute holds a reference to an array or list, and an in-place
  write through one reference is seen through every other. The store makes this explicit.
  A cell is a mutable object that an attribute can refer to: a numpy array (an image, a
  vector, a kernel), a Python list of numbers (\<^verbatim>\<open>fwhm\<close>; also a \<open>VecCell\<close>) or the empty
  dictionary of a fresh \<^verbatim>\<open>psf\<close>. Numbers and booleans are immutable and stay in the
  object.
\<close>

type_synonym ref = nat

datatype cell = ImageCell image | VecCell "real list" | MatCell "real list list" | DictCell

text \<open>An object of the class \<^verbatim>\<open>radmc3dImage\<close>: its attributes, in the order of
  \<^verbatim>\<open>__init__\<close>.\<close>

record cube_object =
  o_image :: ref
  o_imageJyppix :: ref
  o_x :: ref
  o_y :: ref
  o_nx :: nat
  o_ny :: nat
  o_sizepix_x :: real
  o_sizepix_y :: real
  o_nfreq :: nat
  o_freq :: ref
  o_nwav :: nat
  o_wav :: ref
  o_stokes :: bool
  o_psf :: ref
  o_fwhm :: ref
  o_pa :: real
  o_dpc :: real

text \<open>The store: the cells and the cube objects; a reference is an index.\<close>

record store =
  cells :: "cell list"
  objs :: "cube_object list"

definition get_image :: "store \<Rightarrow> ref \<Rightarrow> image" where
  "get_image st r = (case cells st ! r of ImageCell i \<Rightarrow> i | _ \<Rightarrow> Img0)"

definition get_vec :: "store \<Rightarrow> ref \<Rightarrow> real list" where
  "get_vec st r = (case cells st ! r of VecCell v \<Rightarrow> v | _ \<Rightarrow> [])"

definition get_psf :: "store \<Rightarrow> ref \<Rightarrow> real list list option" where
  "get_psf st r = (case cells st ! r of MatCell m \<Rightarrow> Some m | _ \<Rightarrow> None)"

text \<open>The cube that an object is at a moment: every attribute read through the store.\<close>

definition view :: "store \<Rightarrow> ref \<Rightarrow> radmc3dImage" where
  "view st p =
     (let ob = objs st ! p
      in \<lparr>im_image = get_image st (o_image ob),
          im_imageJyppix = get_image st (o_imageJyppix ob),
          im_x = get_vec st (o_x ob), im_y = get_vec st (o_y ob),
          im_nx = o_nx ob, im_ny = o_ny ob,
          im_sizepix_x = o_sizepix_x ob, im_sizepix_y = o_sizepix_y ob,
          im_nfreq = o_nfreq ob, im_freq = get_vec st (o_freq ob),
          im_nwav = o_nwav ob, im_wav = get_vec st (o_wav ob),
          im_stokes = o_stokes ob, im_psf = get_psf st (o_psf ob),
          im_fwhm = get_vec st (o_fwhm ob), im_pa = o_pa ob, im_dpc = o_dpc ob\<rparr>)"

text \<open>A new cell, and an in-place write to a cell.\<close>

definition alloc :: "store \<Rightarrow> cell \<Rightarrow> ref \<times> store" where
  "alloc st c = (length (cells st), st\<lparr>cells := cells st @ [c]\<rparr>)"

definition write_cell :: "store \<Rightarrow> ref \<Rightarrow> cell \<Rightarrow> store" where
  "write_cell st r c = st\<lparr>cells := (cells st)[r := c]\<rparr>"

definition write_object :: "store \<Rightarrow> ref \<Rightarrow> cube_object \<Rightarrow> store" where
  "write_object st p ob = st\<lparr>objs := (objs st)[p := ob]\<rparr>"

subsection \<open>\<^verbatim>\<open>copy.deepcopy\<close>\<close>

text \<open>
  \<^verbatim>\<open>deepcopy\<close> copies every mutable object reachable from its argument once: the memo
  maps an object already copied to its copy, so two attributes that refer to one array
  refer to one new array in the copy.
\<close>

definition copy_ref ::
  "(ref \<times> ref) list \<times> store \<Rightarrow> ref \<Rightarrow> ref \<times> ((ref \<times> ref) list \<times> store)" where
  "copy_ref ms r =
     (case map_of (fst ms) r of
        Some r' \<Rightarrow> (r', ms)
      | None \<Rightarrow>
          (case alloc (snd ms) (cells (snd ms) ! r) of
             (r', st') \<Rightarrow> (r', ((r, r') # fst ms, st'))))"

primrec copy_refs ::
  "ref list \<Rightarrow> (ref \<times> ref) list \<times> store \<Rightarrow> ref list \<times> ((ref \<times> ref) list \<times> store)" where
  "copy_refs [] ms = ([], ms)"
| "copy_refs (r # rs) ms =
     (case copy_ref ms r of
        (r', ms') \<Rightarrow> (case copy_refs rs ms' of (rs', ms'') \<Rightarrow> (r' # rs', ms'')))"

text \<open>The attributes of an object that hold references, in the order of \<^verbatim>\<open>__init__\<close>.\<close>

definition object_refs :: "cube_object \<Rightarrow> ref list" where
  "object_refs ob =
     [o_image ob, o_imageJyppix ob, o_x ob, o_y ob, o_freq ob, o_wav ob, o_psf ob, o_fwhm ob]"

definition deepcopy :: "store \<Rightarrow> ref \<Rightarrow> ref \<times> store" where
  "deepcopy st p =
     (let ob = objs st ! p
      in case copy_refs (object_refs ob) ([], st) of
           (rs, (memo, st1)) \<Rightarrow>
             (length (objs st1),
              st1\<lparr>objs := objs st1 @
                [ob\<lparr>o_image := rs ! 0, o_imageJyppix := rs ! 1, o_x := rs ! 2, o_y := rs ! 3,
                    o_freq := rs ! 4, o_wav := rs ! 5, o_psf := rs ! 6, o_fwhm := rs ! 7\<rparr>]\<rparr>))"

subsection \<open>\<^verbatim>\<open>imConv\<close> and \<^verbatim>\<open>cmask\<close> on the store\<close>

text \<open>
  \<^verbatim>\<open>imConv\<close>: the arrays are computed from what \<^verbatim>\<open>self\<close> and the list \<^verbatim>\<open>fwhm\<close> hold
  (an exception leaves the store as it is); then \<^verbatim>\<open>res = deepcopy(self)\<close>, and the
  attributes of \<^verbatim>\<open>res\<close> are bound: \<^verbatim>\<open>image\<close>, \<^verbatim>\<open>imageJyppix\<close> and \<^verbatim>\<open>psf\<close> to new
  arrays, \<^verbatim>\<open>res.fwhm = fwhm\<close> to the list object that the caller passed.
\<close>

definition imConv_store ::
  "store \<Rightarrow> ref \<Rightarrow> ref \<Rightarrow> real \<Rightarrow> real \<Rightarrow> (error + ref) \<times> store" where
  "imConv_store st self fwhm pa dpc =
     (case imConv (view st self) (get_vec st fwhm) pa dpc of
        Inl e \<Rightarrow> (Inl e, st)
      | Inr r \<Rightarrow>
          (case deepcopy st self of (res, st1) \<Rightarrow>
          (case alloc st1 (ImageCell (im_image r)) of (p_image, st2) \<Rightarrow>
          (case alloc st2 (ImageCell (im_imageJyppix r)) of (p_jy, st3) \<Rightarrow>
          (case alloc st3 (MatCell (the (im_psf r))) of (p_psf, st4) \<Rightarrow>
             (Inr res,
              write_object st4 res
                ((objs st4 ! res)\<lparr>o_image := p_image, o_imageJyppix := p_jy, o_psf := p_psf,
                                   o_fwhm := fwhm, o_pa := pa, o_dpc := dpc\<rparr>)))))))"

text \<open>A loop over a store that stops at the first exception and keeps the store of that
  moment.\<close>

primrec loop_store ::
  "(store \<Rightarrow> 'a \<Rightarrow> error + store) \<Rightarrow> 'a list \<Rightarrow> store \<Rightarrow> error option \<times> store" where
  "loop_store f [] st = (None, st)"
| "loop_store f (x # xs) st =
     (case f st x of Inl e \<Rightarrow> (Some e, st) | Inr st' \<Rightarrow> loop_store f xs st')"

text \<open>
  \<^verbatim>\<open>cmask\<close>: \<^verbatim>\<open>res = deepcopy(im)\<close>, then every pass of the loop reads \<^verbatim>\<open>im.x\<close> and
  \<^verbatim>\<open>im.y\<close> and writes in place into the array that \<^verbatim>\<open>res.image\<close> refers to.
\<close>

definition cmask_pass :: "ref \<Rightarrow> ref \<Rightarrow> real \<Rightarrow> store \<Rightarrow> nat \<Rightarrow> error + store" where
  "cmask_pass im res crad st ix =
     (let target = o_image (objs st ! res)
      in bindE (cmask_row (view st im) crad (get_image st target) ix) (\<lambda>img.
         Inr (write_cell st target (ImageCell img))))"

definition cmask_store ::
  "store \<Rightarrow> ref \<Rightarrow> real \<Rightarrow> bool \<Rightarrow> bool \<Rightarrow> real option \<Rightarrow> (error + ref option) \<times> store" where
  "cmask_store st im rad au arcsec dpc =
     (if au \<and> arcsec then (Inr None, st)
      else
        case (if au then Inr (rad * au_cm)
              else if arcsec then
                (case dpc of None \<Rightarrow> Inl TypeError | Some d \<Rightarrow> Inr (rad * au_cm * d))
              else Inr (rad * o_sizepix_x (objs st ! im))) of
          Inl e \<Rightarrow> (Inl e, st)
        | Inr crad \<Rightarrow>
            (case deepcopy st im of (res, st1) \<Rightarrow>
            (case loop_store (cmask_pass im res crad) [0..<o_nx (objs st1 ! im)] st1 of
               (None, st2) \<Rightarrow> (Inr (Some res), st2)
             | (Some e, st2) \<Rightarrow> (Inl e, st2))))"

subsection \<open>What a call leaves alone\<close>

text \<open>A store is well formed when the references of its objects are cells of it.\<close>

definition store_ok :: "store \<Rightarrow> bool" where
  "store_ok st \<longleftrightarrow> (\<forall>ob\<in>set (objs st). \<forall>r\<in>set (object_refs ob). r < length (cells st))"

text \<open>\<open>extends st st'\<close>: every cell and every object of \<open>st\<close> is in \<open>st'\<close> as it was;
  \<open>st'\<close> may have more of both.\<close>

definition extends :: "store \<Rightarrow> store \<Rightarrow> bool" where
  "extends st st' \<longleftrightarrow>
     length (cells st) \<le> length (cells st') \<and> take (length (cells st)) (cells st') = cells st \<and>
     length (objs st) \<le> length (objs st') \<and> take (length (objs st)) (objs st') = objs st"

text \<open>The invariant of a deep copy under way from \<open>st\<close>: the objects and the old cells
  are untouched, and the memo maps old cells to new cells with the same content.\<close>

definition copying :: "store \<Rightarrow> (ref \<times> ref) list \<times> store \<Rightarrow> bool" where
  "copying st ms \<longleftrightarrow>
     objs (snd ms) = objs st \<and> length (cells st) \<le> length (cells (snd ms)) \<and>
     take (length (cells st)) (cells (snd ms)) = cells st \<and>
     (\<forall>(a, b)\<in>set (fst ms). a < length (cells st) \<and> length (cells st) \<le> b \<and>
        b < length (cells (snd ms)) \<and> cells (snd ms) ! b = cells st ! a)"

lemma extends_refl: "extends st st"
  by (simp add: extends_def)

lemma extends_trans: "extends a b \<Longrightarrow> extends b c \<Longrightarrow> extends a c"
  unfolding extends_def
  by (metis (no_types, lifting) le_trans min.absorb2 take_take min.commute)

lemma extends_nth:
  assumes "extends st st'"
  shows "r < length (cells st) \<Longrightarrow> cells st' ! r = cells st ! r"
    and "p < length (objs st) \<Longrightarrow> objs st' ! p = objs st ! p"
proof -
  show "cells st' ! r = cells st ! r" if "r < length (cells st)"
    using assms that unfolding extends_def by (metis nth_take)
  show "objs st' ! p = objs st ! p" if "p < length (objs st)"
    using assms that unfolding extends_def by (metis nth_take)
qed

lemma view_extends:
  assumes "store_ok st" and "p < length (objs st)" and "extends st st'"
  shows "view st' p = view st p"
proof -
  have ob: "objs st' ! p = objs st ! p"
    using extends_nth(2) [OF assms(3,2)] .
  have "objs st ! p \<in> set (objs st)"
    using assms(2) by simp
  then have refs: "\<forall>r\<in>set (object_refs (objs st ! p)). r < length (cells st)"
    using assms(1) by (simp add: store_ok_def)
  have c: "cells st' ! r = cells st ! r" if "r \<in> set (object_refs (objs st ! p))" for r
    using extends_nth(1) [OF assms(3)] refs that by blast
  show ?thesis
    unfolding view_def Let_def ob get_image_def get_vec_def get_psf_def
    by (simp add: c object_refs_def)
qed

lemma copy_ref_memo:
  assumes "copy_ref ms r = (r', ms')"
  shows "set (fst ms) \<subseteq> set (fst ms') \<and> (r, r') \<in> set (fst ms')"
proof (cases "map_of (fst ms) r")
  case None
  then show ?thesis
    using assms by (auto simp: copy_ref_def alloc_def)
next
  case (Some b)
  then show ?thesis
    using assms by (auto simp: copy_ref_def dest: map_of_SomeD)
qed

lemma copy_ref_copying:
  assumes "copying st ms" and "r < length (cells st)" and "copy_ref ms r = (r', ms')"
  shows "copying st ms'"
proof (cases "map_of (fst ms) r")
  case (Some b)
  then show ?thesis
    using assms by (simp add: copy_ref_def)
next
  case None
  have old: "cells (snd ms) ! r = cells st ! r"
    using assms(1,2) unfolding copying_def by (metis nth_take)
  have ms': "ms' = ((r, length (cells (snd ms))) # fst ms,
                   (snd ms)\<lparr>cells := cells (snd ms) @ [cells (snd ms) ! r]\<rparr>)"
    using assms(3) None by (auto simp: copy_ref_def alloc_def)
  show ?thesis
    using assms(1,2) old unfolding copying_def ms'
    by (auto simp: nth_append)
qed

lemma copy_refs_memo:
  "copy_refs rs ms = (rs', ms') \<Longrightarrow>
   set (fst ms) \<subseteq> set (fst ms') \<and> length rs' = length rs \<and>
   (\<forall>i<length rs. (rs ! i, rs' ! i) \<in> set (fst ms'))"
proof (induction rs arbitrary: ms rs' ms')
  case Nil
  then show ?case by simp
next
  case (Cons r rs)
  obtain r1 ms1 where 1: "copy_ref ms r = (r1, ms1)"
    by (cases "copy_ref ms r")
  obtain rs2 ms2 where 2: "copy_refs rs ms1 = (rs2, ms2)"
    by (cases "copy_refs rs ms1")
  have e: "rs' = r1 # rs2" "ms' = ms2"
    using Cons.prems 1 2 by simp_all
  have m1: "set (fst ms) \<subseteq> set (fst ms1)" "(r, r1) \<in> set (fst ms1)"
    using copy_ref_memo [OF 1] by simp_all
  have m2: "set (fst ms1) \<subseteq> set (fst ms2)" "length rs2 = length rs"
    "\<forall>i<length rs. (rs ! i, rs2 ! i) \<in> set (fst ms2)"
    using Cons.IH [OF 2] by simp_all
  show ?case
    unfolding e using m1 m2 by (auto simp: nth_Cons split: nat.splits)
qed

lemma copy_refs_copying:
  "copying st ms \<Longrightarrow> \<forall>r\<in>set rs. r < length (cells st) \<Longrightarrow> copy_refs rs ms = (rs', ms') \<Longrightarrow>
   copying st ms'"
proof (induction rs arbitrary: ms rs' ms')
  case Nil
  then show ?case by simp
next
  case (Cons r rs)
  obtain r1 ms1 where 1: "copy_ref ms r = (r1, ms1)"
    by (cases "copy_ref ms r")
  obtain rs2 ms2 where 2: "copy_refs rs ms1 = (rs2, ms2)"
    by (cases "copy_refs rs ms1")
  have e: "ms' = ms2"
    using Cons.prems(3) 1 2 by simp
  have c1: "copying st ms1"
    using copy_ref_copying [OF Cons.prems(1) _ 1] Cons.prems(2) by simp
  show ?case
    unfolding e using Cons.IH [OF c1 _ 2] Cons.prems(2) by simp
qed


lemma deepcopy_props:
  assumes "store_ok st" and "p < length (objs st)" and "deepcopy st p = (res, st1)"
  shows "res = length (objs st)" and "extends st st1"
    and "length (objs st1) = Suc (length (objs st))"
    and "\<forall>r\<in>set (object_refs (objs st1 ! res)). length (cells st) \<le> r \<and> r < length (cells st1)"
    and "view st1 res = view st p" and "store_ok st1"
proof -
  define ob where "ob = objs st ! p"
  obtain rs memo st' where cr: "copy_refs (object_refs ob) ([], st) = (rs, (memo, st'))"
    by (metis surj_pair)
  have "ob \<in> set (objs st)"
    using assms(2) by (simp add: ob_def)
  then have refs: "\<forall>r\<in>set (object_refs ob). r < length (cells st)"
    using assms(1) by (simp add: store_ok_def)
  have c0: "copying st ([], st)"
    by (simp add: copying_def)
  have c: "copying st (memo, st')"
    using copy_refs_copying [OF c0 refs cr] .
  have m: "\<forall>i<length (object_refs ob). (object_refs ob ! i, rs ! i) \<in> set memo"
    and lrs: "length rs = length (object_refs ob)"
    using copy_refs_memo [OF cr] by simp_all
  have os: "objs st' = objs st" and len: "length (cells st) \<le> length (cells st')"
    and pre: "take (length (cells st)) (cells st') = cells st"
    using c by (simp_all add: copying_def)
  have each: "length (cells st) \<le> rs ! i \<and> rs ! i < length (cells st') \<and>
      cells st' ! (rs ! i) = cells st ! (object_refs ob ! i)" if "i < 8" for i
  proof -
    have "(object_refs ob ! i, rs ! i) \<in> set memo"
      using m that by (simp add: object_refs_def)
    then show ?thesis
      using c unfolding copying_def by auto
  qed
  define ob' where "ob' = ob\<lparr>o_image := rs ! 0, o_imageJyppix := rs ! 1, o_x := rs ! 2,
      o_y := rs ! 3, o_freq := rs ! 4, o_wav := rs ! 5, o_psf := rs ! 6, o_fwhm := rs ! 7\<rparr>"
  have st1: "st1 = st'\<lparr>objs := objs st @ [ob']\<rparr>" and res: "res = length (objs st)"
    using assms(3) unfolding deepcopy_def Let_def ob_def [symmetric] cr ob'_def
    by (auto simp: os)
  show "res = length (objs st)"
    by (rule res)
  show ext: "extends st st1"
    by (simp add: extends_def st1 len pre)
  show "length (objs st1) = Suc (length (objs st))"
    by (simp add: st1)
  have new: "objs st1 ! res = ob'"
    by (simp add: st1 res)
  have e: "length (cells st) \<le> rs ! 0 \<and> rs ! 0 < length (cells st')"
    "length (cells st) \<le> rs ! 1 \<and> rs ! 1 < length (cells st')"
    "length (cells st) \<le> rs ! 2 \<and> rs ! 2 < length (cells st')"
    "length (cells st) \<le> rs ! 3 \<and> rs ! 3 < length (cells st')"
    "length (cells st) \<le> rs ! 4 \<and> rs ! 4 < length (cells st')"
    "length (cells st) \<le> rs ! 5 \<and> rs ! 5 < length (cells st')"
    "length (cells st) \<le> rs ! 6 \<and> rs ! 6 < length (cells st')"
    "length (cells st) \<le> rs ! 7 \<and> rs ! 7 < length (cells st')"
    using each by simp_all
  show fresh: "\<forall>r\<in>set (object_refs (objs st1 ! res)).
      length (cells st) \<le> r \<and> r < length (cells st1)"
    unfolding new using e by (simp add: object_refs_def ob'_def st1)
  have v: "cells st' ! (rs ! 0) = cells st ! o_image ob"
    "cells st' ! (rs ! 1) = cells st ! o_imageJyppix ob"
    "cells st' ! (rs ! 2) = cells st ! o_x ob"
    "cells st' ! (rs ! 3) = cells st ! o_y ob"
    "cells st' ! (rs ! 4) = cells st ! o_freq ob"
    "cells st' ! (rs ! 5) = cells st ! o_wav ob"
    "cells st' ! (rs ! 6) = cells st ! o_psf ob"
    "cells st' ! (rs ! 7) = cells st ! o_fwhm ob"
    using each [of 0] each [of 1] each [of 2] each [of 3] each [of 4] each [of 5]
      each [of 6] each [of 7]
    by (simp_all add: object_refs_def)
  show "view st1 res = view st p"
    unfolding view_def Let_def new ob_def [symmetric] get_image_def get_vec_def get_psf_def
    using v by (simp add: ob'_def st1)
  show "store_ok st1"
    unfolding store_ok_def
  proof (intro ballI)
    fix o' r
    assume o': "o' \<in> set (objs st1)" and r: "r \<in> set (object_refs o')"
    show "r < length (cells st1)"
    proof (cases "o' = ob'")
      case True
      then show ?thesis
        using fresh r new by simp
    next
      case False
      then have "o' \<in> set (objs st)"
        using o' by (simp add: st1)
      then have "r < length (cells st)"
        using assms(1) r by (simp add: store_ok_def)
      then show ?thesis
        using len by (simp add: st1)
    qed
  qed
qed

lemma alloc_props:
  assumes "alloc st c = (r, st')"
  shows "r = length (cells st)" and "extends st st'" and "cells st' ! r = c"
    and "objs st' = objs st" and "length (cells st') = Suc (length (cells st))"
  using assms by (auto simp: alloc_def extends_def)

lemma extends_write_object:
  "length (objs st) \<le> p \<Longrightarrow> extends st st' \<Longrightarrow> extends st (write_object st' p ob)"
  by (simp add: extends_def write_object_def)

lemma extends_write_cell:
  "length (cells st) \<le> r \<Longrightarrow> extends st st' \<Longrightarrow> extends st (write_cell st' r c)"
  by (simp add: extends_def write_cell_def)

text \<open>The references of an object to the arrays it owns after a convolution: all but
  \<^verbatim>\<open>fwhm\<close>.\<close>

definition array_refs :: "cube_object \<Rightarrow> ref list" where
  "array_refs ob = [o_image ob, o_imageJyppix ob, o_x ob, o_y ob, o_freq ob, o_wav ob, o_psf ob]"

lemma imConv_fields:
  assumes "imConv self fwhm pa dpc = Inr r"
  shows "im_x r = im_x self" and "im_y r = im_y self" and "im_nx r = im_nx self"
    and "im_ny r = im_ny self" and "im_sizepix_x r = im_sizepix_x self"
    and "im_sizepix_y r = im_sizepix_y self" and "im_nfreq r = im_nfreq self"
    and "im_freq r = im_freq self" and "im_nwav r = im_nwav self" and "im_wav r = im_wav self"
    and "im_stokes r = im_stokes self" and "im_fwhm r = fwhm" and "im_pa r = pa"
    and "im_dpc r = dpc" and "im_psf r \<noteq> None"
  using assms unfolding imConv_def Let_def by (auto simp: bindE_eq_Inr split: if_splits)

lemma imConv_store_Inl:
  "imConv_store st self fwhm pa dpc = (Inl e, st') \<Longrightarrow> st' = st"
  unfolding imConv_store_def
  by (cases "imConv (view st self) (get_vec st fwhm) pa dpc")
    (auto split: prod.splits)

lemma imConv_store_Inr:
  assumes "store_ok st" and "self < length (objs st)" and "fwhm < length (cells st)"
    and "imConv_store st self fwhm pa dpc = (Inr res, st')"
  shows "extends st st'" and "res = length (objs st)" and "res < length (objs st')"
    and "\<forall>r\<in>set (array_refs (objs st' ! res)). length (cells st) \<le> r \<and> r < length (cells st')"
    and "o_fwhm (objs st' ! res) = fwhm"
    and "imConv (view st self) (get_vec st fwhm) pa dpc = Inr (view st' res)"
    and "store_ok st'"
proof -
  obtain r where r: "imConv (view st self) (get_vec st fwhm) pa dpc = Inr r"
    using assms(4) unfolding imConv_store_def
    by (cases "imConv (view st self) (get_vec st fwhm) pa dpc") (auto split: prod.splits)
  obtain res1 st1 where d: "deepcopy st self = (res1, st1)"
    by (metis surj_pair)
  obtain p2 st2 where a2: "alloc st1 (ImageCell (im_image r)) = (p2, st2)"
    by (metis surj_pair)
  obtain p3 st3 where a3: "alloc st2 (ImageCell (im_imageJyppix r)) = (p3, st3)"
    by (metis surj_pair)
  obtain p4 st4 where a4: "alloc st3 (MatCell (the (im_psf r))) = (p4, st4)"
    by (metis surj_pair)
  define ob where "ob = (objs st4 ! res1)\<lparr>o_image := p2, o_imageJyppix := p3, o_psf := p4,
                                   o_fwhm := fwhm, o_pa := pa, o_dpc := dpc\<rparr>"
  have out: "res = res1" "st' = write_object st4 res1 ob"
    using assms(4) by (auto simp: imConv_store_def r d a2 a3 a4 ob_def)
  note dc = deepcopy_props [OF assms(1,2) d]
  note A2 = alloc_props [OF a2]
  note A3 = alloc_props [OF a3]
  note A4 = alloc_props [OF a4]
  have e4: "extends st st4"
    using dc(2) A2(2) A3(2) A4(2) extends_trans by blast
  have o4: "objs st4 = objs st1"
    using A2(4) A3(4) A4(4) by simp
  have l4: "length (cells st4) = length (cells st1) + 3"
    using A2(5) A3(5) A4(5) by simp
  show ext: "extends st st'"
    unfolding out using dc(1) by (intro extends_write_object e4) simp
  show "res = length (objs st)"
    using out dc(1) by simp
  show lt: "res < length (objs st')"
    using out dc(1,3) o4 by (simp add: write_object_def)
  have new: "objs st' ! res = ob"
    using out dc(1,3) o4 by (simp add: write_object_def)
  have cs: "cells st' = cells st4"
    by (simp add: out write_object_def)
  have e14: "extends st1 st4"
    using A2(2) A3(2) A4(2) extends_trans by blast
  have fresh1: "\<forall>r\<in>set (object_refs (objs st1 ! res1)).
      length (cells st) \<le> r \<and> r < length (cells st1)"
    using dc(4) .
  have p: "p2 = length (cells st1)" "p3 = Suc (length (cells st1))"
    "p4 = Suc (Suc (length (cells st1)))"
    using A2(1,5) A3(1,5) A4(1) by simp_all
  have len1: "length (cells st) \<le> length (cells st1)"
    using dc(2) by (simp add: extends_def)
  show "\<forall>r\<in>set (array_refs (objs st' ! res)). length (cells st) \<le> r \<and> r < length (cells st')"
    unfolding new cs using fresh1 p len1 l4
    by (auto simp: array_refs_def object_refs_def ob_def o4)
  show "o_fwhm (objs st' ! res) = fwhm"
    by (simp add: new ob_def)
  have old1: "cells st4 ! q = cells st1 ! q" if "q < length (cells st1)" for q
    using extends_nth(1) [OF e14 that] .
  have c2: "cells st4 ! p2 = ImageCell (im_image r)"
    using A2(3) extends_nth(1) [of st2 st4 p2] A3(2) A4(2) A2(5) p extends_trans by (metis lessI)
  have c3: "cells st4 ! p3 = ImageCell (im_imageJyppix r)"
    using A3(3) extends_nth(1) [OF A4(2), of p3] A3(5) A3(1) by simp
  have c4: "cells st4 ! p4 = MatCell (the (im_psf r))"
    using A4(3) .
  have cf: "cells st4 ! fwhm = cells st ! fwhm"
    using extends_nth(1) [OF e4 assms(3)] .
  have v1: "view st1 res1 = view st self"
    using dc(5) .
  have keep: "cells st4 ! q = cells st1 ! q"
    if "q \<in> set (object_refs (objs st1 ! res1))" for q
    using old1 fresh1 that by blast
  note F = imConv_fields [OF r]
  have vs: "view st1 res1 = view st self"
    using dc(5) .
  have ob1: "objs st4 ! res1 = objs st1 ! res1"
    by (simp add: o4)
  have "view st' res = r"
  proof (rule radmc3dImage.equality)
    show "im_image (view st' res) = im_image r"
      by (simp add: view_def Let_def new cs ob_def get_image_def c2)
    show "im_imageJyppix (view st' res) = im_imageJyppix r"
      by (simp add: view_def Let_def new cs ob_def get_image_def c3)
    show "im_psf (view st' res) = im_psf r"
      using F(15) by (auto simp: view_def Let_def new cs ob_def get_psf_def c4)
    show "im_fwhm (view st' res) = im_fwhm r"
      by (simp add: view_def Let_def new cs ob_def get_vec_def cf F(12))
    show "im_pa (view st' res) = im_pa r" "im_dpc (view st' res) = im_dpc r"
      by (simp_all add: view_def Let_def new ob_def F)
    have "im_x (view st' res) = im_x (view st1 res1)"
      "im_y (view st' res) = im_y (view st1 res1)"
      "im_freq (view st' res) = im_freq (view st1 res1)"
      "im_wav (view st' res) = im_wav (view st1 res1)"
      "im_nx (view st' res) = im_nx (view st1 res1)"
      "im_ny (view st' res) = im_ny (view st1 res1)"
      "im_sizepix_x (view st' res) = im_sizepix_x (view st1 res1)"
      "im_sizepix_y (view st' res) = im_sizepix_y (view st1 res1)"
      "im_nfreq (view st' res) = im_nfreq (view st1 res1)"
      "im_nwav (view st' res) = im_nwav (view st1 res1)"
      "im_stokes (view st' res) = im_stokes (view st1 res1)"
      using keep by (simp_all add: view_def Let_def new cs ob_def ob1 get_vec_def object_refs_def)
    then show "im_x (view st' res) = im_x r" "im_y (view st' res) = im_y r"
      "im_freq (view st' res) = im_freq r" "im_wav (view st' res) = im_wav r"
      "im_nx (view st' res) = im_nx r" "im_ny (view st' res) = im_ny r"
      "im_sizepix_x (view st' res) = im_sizepix_x r"
      "im_sizepix_y (view st' res) = im_sizepix_y r"
      "im_nfreq (view st' res) = im_nfreq r" "im_nwav (view st' res) = im_nwav r"
      "im_stokes (view st' res) = im_stokes r"
      unfolding vs by (simp_all add: F)
    show "radmc3dImage.more (view st' res) = radmc3dImage.more r"
      by simp
  qed
  then show "imConv (view st self) (get_vec st fwhm) pa dpc = Inr (view st' res)"
    using r by simp
  have l14: "length (cells st1) \<le> length (cells st4)"
    using l4 by simp
  have lf: "fwhm < length (cells st4)"
    using assms(3) len1 l14 by simp
  show "store_ok st'"
    unfolding store_ok_def
  proof (intro ballI)
    fix o' q
    assume o': "o' \<in> set (objs st')" and q: "q \<in> set (object_refs o')"
    have "o' = ob \<or> o' \<in> set (objs st1)"
      using o' set_update_subset_insert [of "objs st1" res1 ob]
      by (auto simp: out write_object_def o4)
    then show "q < length (cells st')"
    proof
      assume "o' = ob"
      then show ?thesis
        using q fresh1 p l4 lf unfolding cs
        by (auto simp: object_refs_def ob_def o4)
    next
      assume "o' \<in> set (objs st1)"
      then have "q < length (cells st1)"
        using dc(6) q by (simp add: store_ok_def)
      then show ?thesis
        using l14 by (simp add: cs)
    qed
  qed
qed

lemma imConv_store_returns:
  assumes "store_ok st" and "self < length (objs st)"
    and "imConv (view st self) (get_vec st fwhm) pa dpc = Inr r"
  shows "fst (imConv_store st self fwhm pa dpc) = Inr (length (objs st))"
proof -
  obtain res1 st1 where d: "deepcopy st self = (res1, st1)"
    by (metis surj_pair)
  have "res1 = length (objs st)"
    using deepcopy_props(1) [OF assms(1,2) d] .
  then show ?thesis
    by (simp add: imConv_store_def assms(3) d split: prod.splits)
qed


lemma cmask_loop_store:
  assumes "store_ok st" and "im < length (objs st)"
    and "length (cells st) \<le> target" and "target < length (cells st1)"
    and "o_image (objs st1 ! res) = target"
  shows "extends st s \<Longrightarrow> objs s = objs st1 \<Longrightarrow> length (cells s) = length (cells st1) \<Longrightarrow>
     loop_store (cmask_pass im res crad) xs s = (out, s') \<Longrightarrow>
     extends st s' \<and> objs s' = objs st1 \<and> length (cells s') = length (cells st1) \<and>
     foldE (cmask_row (view st im) crad) xs (get_image s target)
       = (case out of None \<Rightarrow> Inr (get_image s' target) | Some e \<Rightarrow> Inl e)"
proof (induction xs arbitrary: s)
  case Nil
  then show ?case by auto
next
  case (Cons x xs)
  have v: "view s im = view st im"
    using view_extends [OF assms(1,2) Cons.prems(1)] .
  have t: "o_image (objs s ! res) = target"
    using assms(5) Cons.prems(2) by simp
  show ?case
  proof (cases "cmask_row (view st im) crad (get_image s target) x")
    case (Inl e)
    then have "loop_store (cmask_pass im res crad) (x # xs) s = (Some e, s)"
      by (simp add: cmask_pass_def Let_def v t)
    then show ?thesis
      using Cons.prems Inl by auto
  next
    case (Inr img)
    define s1 where "s1 = write_cell s target (ImageCell img)"
    have pass: "cmask_pass im res crad s x = Inr s1"
      by (simp add: cmask_pass_def Let_def v t Inr s1_def)
    have 1: "extends st s1"
      unfolding s1_def by (rule extends_write_cell [OF assms(3) Cons.prems(1)])
    have 2: "objs s1 = objs st1" "length (cells s1) = length (cells st1)"
      using Cons.prems(2,3) by (simp_all add: s1_def write_cell_def)
    have 3: "loop_store (cmask_pass im res crad) xs s1 = (out, s')"
      using Cons.prems(4) pass by simp
    have g: "get_image s1 target = img"
      using assms(4) Cons.prems(3) by (simp add: s1_def write_cell_def get_image_def)
    show ?thesis
      using Cons.IH [OF 1 2 3] Inr g by simp
  qed
qed

lemma cmask_store_props:
  assumes "store_ok st" and "im < length (objs st)"
    and "cmask_store st im rad au arcsec dpc = (out, st')"
  shows "extends st st'"
    and "out = Inr (Some res) \<Longrightarrow>
         res = length (objs st) \<and> res < length (objs st') \<and>
         (\<forall>r\<in>set (object_refs (objs st' ! res)). length (cells st) \<le> r \<and> r < length (cells st')) \<and>
         (\<exists>r. cmask (view st im) rad au arcsec dpc = Inr (Some r) \<and>
              im_image (view st' res) = im_image r)"
    and "cmask (view st im) rad au arcsec dpc = Inr (Some r0) \<Longrightarrow>
         out = Inr (Some (length (objs st)))"
proof -
  let ?crad = "if au then Inr (rad * au_cm)
              else if arcsec then
                (case dpc of None \<Rightarrow> Inl TypeError | Some d \<Rightarrow> Inr (rad * au_cm * d))
              else Inr (rad * o_sizepix_x (objs st ! im))"
  have main: "extends st st' \<and> (out = Inr (Some res) \<longrightarrow>
         res = length (objs st) \<and> res < length (objs st') \<and>
         (\<forall>r\<in>set (object_refs (objs st' ! res)). length (cells st) \<le> r \<and> r < length (cells st')) \<and>
         (\<exists>r. cmask (view st im) rad au arcsec dpc = Inr (Some r) \<and>
              im_image (view st' res) = im_image r)) \<and>
       (cmask (view st im) rad au arcsec dpc = Inr (Some r0) \<longrightarrow>
         out = Inr (Some (length (objs st))))"
  proof (cases "au \<and> arcsec")
    case True
    then show ?thesis
      using assms(3) by (auto simp: cmask_store_def cmask_def extends_refl)
  next
    case False
    show ?thesis
    proof (cases ?crad)
      case (Inl e)
      then have "out = Inl e" "st' = st"
        using assms(3) False unfolding cmask_store_def by (simp_all del: au_cm_def)
      moreover have sz0: "o_sizepix_x (objs st ! im) = im_sizepix_x (view st im)"
        by (simp add: view_def Let_def)
      have cr0: "(if au then Inr (rad * au_cm)
               else if arcsec then
                 (case dpc of None \<Rightarrow> Inl TypeError | Some d \<Rightarrow> Inr (rad * au_cm * d))
               else Inr (rad * im_sizepix_x (view st im))) = Inl e"
        using Inl unfolding sz0 .
      have "cmask (view st im) rad au arcsec dpc = Inl e"
        unfolding cmask_def if_not_P [OF False] cr0 bindE_Inl ..
      ultimately show ?thesis
        by (simp add: extends_refl)
    next
      case (Inr crad)
      obtain res1 st1 where d: "deepcopy st im = (res1, st1)"
        by (metis surj_pair)
      note dc = deepcopy_props [OF assms(1,2) d]
      define target where "target = o_image (objs st1 ! res1)"
      have tr: "length (cells st) \<le> target" "target < length (cells st1)"
        using dc(4) by (simp_all add: target_def object_refs_def)
      obtain lo st2 where
        l: "loop_store (cmask_pass im res1 crad) [0..<o_nx (objs st1 ! im)] st1 = (lo, st2)"
        by (metis surj_pair)
      have o: "out = (case lo of None \<Rightarrow> Inr (Some res1) | Some e \<Rightarrow> Inl e)" "st' = st2"
        using assms(3) False Inr d l unfolding cmask_store_def
        by (auto split: option.splits)
      have L: "extends st st2 \<and> objs st2 = objs st1 \<and> length (cells st2) = length (cells st1) \<and>
          foldE (cmask_row (view st im) crad) [0..<o_nx (objs st1 ! im)] (get_image st1 target)
            = (case lo of None \<Rightarrow> Inr (get_image st2 target) | Some e \<Rightarrow> Inl e)"
        by (rule cmask_loop_store [OF assms(1,2) tr _ dc(2) _ _ l]) (simp_all add: target_def)
      have nx: "o_nx (objs st1 ! im) = im_nx (view st im)"
        using extends_nth(2) [OF dc(2) assms(2)] by (simp add: view_def Let_def)
      have im0: "get_image st1 target = im_image (view st im)"
        using dc(5) by (simp add: view_def Let_def target_def)
      have sz: "o_sizepix_x (objs st ! im) = im_sizepix_x (view st im)"
        by (simp add: view_def Let_def)
      have ext: "extends st st'"
        using L o by simp
      have ret: "res = length (objs st) \<and> res < length (objs st') \<and>
         (\<forall>r\<in>set (object_refs (objs st' ! res)). length (cells st) \<le> r \<and> r < length (cells st')) \<and>
         (\<exists>r. cmask (view st im) rad au arcsec dpc = Inr (Some r) \<and>
              im_image (view st' res) = im_image r)" if "out = Inr (Some res)"
      proof -
        have lo: "lo = None" and rr: "res = res1"
          using that o(1) by (cases lo; simp)+
        have f: "foldE (cmask_row (view st im) crad) [0..<im_nx (view st im)] (im_image (view st im))
              = Inr (get_image st2 target)"
          using L lo nx im0 by simp
        have cr: "(if au then Inr (rad * au_cm)
               else if arcsec then
                 (case dpc of None \<Rightarrow> Inl TypeError | Some d \<Rightarrow> Inr (rad * au_cm * d))
               else Inr (rad * im_sizepix_x (view st im))) = Inr crad"
          using Inr unfolding sz .
        have c: "cmask (view st im) rad au arcsec dpc
              = Inr (Some ((view st im)\<lparr>im_image := get_image st2 target\<rparr>))"
          unfolding cmask_def if_not_P [OF False] cr bindE_Inr f ..
        have i: "im_image (view st' res) = get_image st2 target"
          using L by (simp add: view_def Let_def o rr target_def)
        have fr: "\<forall>r\<in>set (object_refs (objs st' ! res)).
            length (cells st) \<le> r \<and> r < length (cells st')"
          using dc(4) L by (simp add: o rr)
        show ?thesis
          using dc(1,3) L c i fr by (simp add: o rr)
      qed
      have val: "out = Inr (Some (length (objs st)))"
        if v: "cmask (view st im) rad au arcsec dpc = Inr (Some r0)"
      proof -
        have cr: "(if au then Inr (rad * au_cm)
               else if arcsec then
                 (case dpc of None \<Rightarrow> Inl TypeError | Some d \<Rightarrow> Inr (rad * au_cm * d))
               else Inr (rad * im_sizepix_x (view st im))) = Inr crad"
          using Inr unfolding sz .
        have "\<exists>img. foldE (cmask_row (view st im) crad) [0..<im_nx (view st im)]
                 (im_image (view st im)) = Inr img"
          using v unfolding cmask_def if_not_P [OF False] cr bindE_Inr
          by (auto simp: bindE_eq_Inr)
        then have "lo = None"
          using L nx im0 by (cases lo) auto
        then show ?thesis
          using o(1) dc(1) by simp
      qed
      show ?thesis
        using ext ret val by blast
    qed
  qed
  show "extends st st'"
    using main by blast
  show "out = Inr (Some res) \<Longrightarrow>
         res = length (objs st) \<and> res < length (objs st') \<and>
         (\<forall>r\<in>set (object_refs (objs st' ! res)). length (cells st) \<le> r \<and> r < length (cells st')) \<and>
         (\<exists>r. cmask (view st im) rad au arcsec dpc = Inr (Some r) \<and>
              im_image (view st' res) = im_image r)"
    using main by blast
  show "cmask (view st im) rad au arcsec dpc = Inr (Some r0) \<Longrightarrow>
         out = Inr (Some (length (objs st)))"
    using main by blast
qed

lemma view_write_cell:
  assumes "r \<notin> set (object_refs (objs st ! p))"
  shows "view (write_cell st r c) p = view st p"
  using assms
  by (simp add: view_def Let_def write_cell_def get_image_def get_vec_def get_psf_def
      object_refs_def)

lemma view_write_object: "res \<noteq> p \<Longrightarrow> view (write_object st res ob) p = view st p"
  by (simp add: view_def Let_def write_object_def get_image_def get_vec_def get_psf_def)

lemma source_refs_old:
  assumes "store_ok st" and "p < length (objs st)" and "extends st st'"
  shows "\<forall>r\<in>set (object_refs (objs st' ! p)). r < length (cells st)"
proof -
  have "objs st ! p \<in> set (objs st)"
    using assms(2) by simp
  then show ?thesis
    using assms(1) extends_nth(2) [OF assms(3,2)] by (simp add: store_ok_def)
qed

lemma fresh_cell_frame:
  assumes "store_ok st" and "p < length (objs st)" and "extends st st'"
    and "length (cells st) \<le> r"
  shows "r \<notin> set (object_refs (objs st' ! p))"
    and "view (write_cell st' r c) p = view st' p"
proof -
  show n: "r \<notin> set (object_refs (objs st' ! p))"
    using source_refs_old [OF assms(1,2,3)] assms(4) by auto
  show "view (write_cell st' r c) p = view st' p"
    by (rule view_write_cell [OF n])
qed

lemma imConv_cube_ok:
  assumes "cube_ok self" and "\<not> im_stokes self" and "0 < im_nx self" and "0 < im_ny self"
    and "imConv self [fx, fy] pa dpc = Inr res"
  shows "cube_ok res" and "\<not> im_stokes res" and "im_nx res = im_nx self"
    and "im_ny res = im_ny self"
proof -
  obtain a where img: "im_image self = Img3 a"
    and sh: "shape3 a (im_nx self) (im_ny self) (im_nfreq self)"
    using assms(1,2) by (auto simp: cube_ok_def split: image.splits)
  obtain dum f_psf cimage where
    d: "getPSF (im_nx self) (im_ny self) [fx, fy] pa
       (Some [im_sizepix_x self / au_cm / dpc, im_sizepix_y self / au_cm / dpc]) = Inr dum"
    and f: "fft2 (map (map complex_of_real) (psf_psf dum)) = Inr f_psf"
    and c: "imConv_cimage self f_psf = Inr cimage"
    and res: "res = self\<lparr>im_image := scale_image (imConv_conv self dpc fx fy) cimage,
                im_imageJyppix := scale_image (10 ^ 23) (scale_image (imConv_conv self dpc fx fy) cimage),
                im_psf := Some (psf_psf dum), im_fwhm := [fx, fy], im_pa := pa, im_dpc := dpc\<rparr>"
    using imConv_Inr [OF assms(5)] by blast
  obtain dum' where "getPSF (im_nx self) (im_ny self) [fx, fy] pa
       (Some [im_sizepix_x self / au_cm / dpc, im_sizepix_y self / au_cm / dpc]) = Inr dum'"
    and "shape2 (psf_psf dum') (im_nx self) (im_ny self)"
    using getPSF_shape by blast
  then have sp: "shape2 (psf_psf dum) (im_nx self) (im_ny self)"
    using d by simp
  obtain f' where "fft2 (map (map complex_of_real) (psf_psf dum)) = Inr f'"
    and "shape2 f' (im_nx self) (im_ny self)"
    using fft2_total [OF shape2_map [OF sp] assms(3,4)] by blast
  then have sf: "shape2 f_psf (im_nx self) (im_ny self)"
    using f by simp
  obtain planes where "imConv_cimage self f_psf
            = Inr (Img3 (stack3 (im_nx self) (im_ny self) (im_nfreq self) planes))"
    using imConv_cimage_intensity [OF img assms(2) sh sf assms(3,4)] by blast
  then have cim: "cimage = Img3 (stack3 (im_nx self) (im_ny self) (im_nfreq self) planes)"
    using c by simp
  have s: "shape3 (map (map (map (\<lambda>v. v * imConv_conv self dpc fx fy)))
              (stack3 (im_nx self) (im_ny self) (im_nfreq self) planes))
            (im_nx self) (im_ny self) (im_nfreq self)"
    by (intro shape3_scale shape3_stack3)
  show "cube_ok res"
    using assms(1,2) s unfolding cube_ok_def res cim by (simp add: scale_image_def img)
  show "\<not> im_stokes res" "im_nx res = im_nx self" "im_ny res = im_ny self"
    using assms(2) by (simp_all add: res)
qed

subsection \<open>A store with one loaded cube\<close>

text \<open>The store after \<^verbatim>\<open>c = readImage(...)\<close> and \<^verbatim>\<open>fw = [...]\<close>: object 0 is the cube
  \<open>c\<close> with its arrays in the cells 0 to 5, the dictionary \<^verbatim>\<open>psf\<close> and the list \<^verbatim>\<open>fwhm\<close>
  of \<^verbatim>\<open>__init__\<close> in the cells 6 and 7, and cell 8 is the list \<open>fw\<close> of the caller.\<close>

definition cube_store :: "radmc3dImage \<Rightarrow> real list \<Rightarrow> store" where
  "cube_store c fw =
     \<lparr>cells = [ImageCell (im_image c), ImageCell (im_imageJyppix c), VecCell (im_x c),
               VecCell (im_y c), VecCell (im_freq c), VecCell (im_wav c), DictCell,
               VecCell (im_fwhm c), VecCell fw],
      objs = [\<lparr>o_image = 0, o_imageJyppix = 1, o_x = 2, o_y = 3,
                o_nx = im_nx c, o_ny = im_ny c,
                o_sizepix_x = im_sizepix_x c, o_sizepix_y = im_sizepix_y c,
                o_nfreq = im_nfreq c, o_freq = 4, o_nwav = im_nwav c, o_wav = 5,
                o_stokes = im_stokes c, o_psf = 6, o_fwhm = 7,
                o_pa = im_pa c, o_dpc = im_dpc c\<rparr>]\<rparr>"

lemma cube_store_props:
  "store_ok (cube_store c fw)" "length (objs (cube_store c fw)) = 1"
  "length (cells (cube_store c fw)) = 9" "get_vec (cube_store c fw) 8 = fw"
  "im_psf c = None \<Longrightarrow> view (cube_store c fw) 0 = c"
  by (simp_all add: cube_store_def store_ok_def object_refs_def get_vec_def view_def
      get_image_def get_psf_def)

subsection \<open>The derived cube and its source\<close>

text \<open>
  Claim C9, as the code has it. In a well-formed store, a call of \<^verbatim>\<open>imConv\<close> on the cube
  object \<open>self\<close> with the list object \<open>fwhm\<close>, and a call of \<^verbatim>\<open>cmask\<close> on \<open>self\<close>, whatever
  their outcome, leave every attribute of \<open>self\<close> as it was (the cube that \<open>self\<close> is, read
  through the store, is the same before and after). When a call returns a cube \<open>res\<close>, it
  is a new object (rebinding its attributes does not touch \<open>self\<close>), it is the result of the
  function on values, and every array it refers to (\<^verbatim>\<open>image\<close>, \<^verbatim>\<open>imageJyppix\<close>, \<^verbatim>\<open>x\<close>,
  \<^verbatim>\<open>y\<close>, \<^verbatim>\<open>freq\<close>, \<^verbatim>\<open>wav\<close>, \<^verbatim>\<open>psf\<close>, and for \<^verbatim>\<open>cmask\<close> also \<^verbatim>\<open>fwhm\<close>) is a cell that did
  not exist before the call and that \<open>self\<close> does not refer to, so a write into it leaves
  \<open>self\<close> as it is. The attribute \<^verbatim>\<open>fwhm\<close> of a cube returned by \<^verbatim>\<open>imConv\<close> is the
  exception: it is the list object that the caller passed, not a copy.
\<close>

theorem derived_cube_frame:
  assumes "store_ok st" and "self < length (objs st)" and "fwhm < length (cells st)"
  shows
   "(\<forall>out st'. imConv_store st self fwhm pa dpc = (out, st') \<longrightarrow>
       view st' self = view st self \<and>
       (\<forall>res. out = Inr res \<longrightarrow>
          res \<noteq> self \<and>
          imConv (view st self) (get_vec st fwhm) pa dpc = Inr (view st' res) \<and>
          o_fwhm (objs st' ! res) = fwhm \<and>
          (\<forall>ob. view (write_object st' res ob) self = view st' self) \<and>
          (\<forall>r\<in>set (array_refs (objs st' ! res)).
             length (cells st) \<le> r \<and> r \<notin> set (object_refs (objs st' ! self)) \<and>
             (\<forall>c. view (write_cell st' r c) self = view st' self)))) \<and>
    (\<forall>out st'. cmask_store st self rad au arcsec d = (out, st') \<longrightarrow>
       view st' self = view st self \<and>
       (\<forall>res. out = Inr (Some res) \<longrightarrow>
          res \<noteq> self \<and>
          (\<exists>r. cmask (view st self) rad au arcsec d = Inr (Some r) \<and>
               im_image (view st' res) = im_image r) \<and>
          (\<forall>ob. view (write_object st' res ob) self = view st' self) \<and>
          (\<forall>r\<in>set (object_refs (objs st' ! res)).
             length (cells st) \<le> r \<and> r \<notin> set (object_refs (objs st' ! self)) \<and>
             (\<forall>c. view (write_cell st' r c) self = view st' self))))"
proof (intro conjI allI impI)
  fix out st'
  assume c: "imConv_store st self fwhm pa dpc = (out, st')"
  have e: "extends st st'"
  proof (cases out)
    case (Inl err)
    then show ?thesis
      using imConv_store_Inl [of st self fwhm pa dpc err st'] c by (simp add: extends_refl)
  next
    case (Inr res)
    then show ?thesis
      using imConv_store_Inr(1) [OF assms, of pa dpc res st'] c by simp
  qed
  show "view st' self = view st self"
    by (rule view_extends [OF assms(1,2) e])
  fix res
  assume o: "out = Inr res"
  note R = imConv_store_Inr [OF assms c [unfolded o]]
  show ne: "res \<noteq> self"
    using R(2) assms(2) by simp
  show "imConv (view st self) (get_vec st fwhm) pa dpc = Inr (view st' res)"
    by (rule R(6))
  show "o_fwhm (objs st' ! res) = fwhm"
    by (rule R(5))
  show "view (write_object st' res ob) self = view st' self" for ob
    by (rule view_write_object [OF ne])
  show "\<forall>r\<in>set (array_refs (objs st' ! res)).
             length (cells st) \<le> r \<and> r \<notin> set (object_refs (objs st' ! self)) \<and>
             (\<forall>c. view (write_cell st' r c) self = view st' self)"
    using R(4) fresh_cell_frame [OF assms(1,2) e] by blast
next
  fix out st'
  assume c: "cmask_store st self rad au arcsec d = (out, st')"
  have e: "extends st st'"
    by (rule cmask_store_props(1) [OF assms(1,2) c])
  show "view st' self = view st self"
    by (rule view_extends [OF assms(1,2) e])
  fix res
  assume o: "out = Inr (Some res)"
  note R = cmask_store_props(2) [OF assms(1,2) c o]
  show ne: "res \<noteq> self"
    using R assms(2) by simp
  show "\<exists>r. cmask (view st self) rad au arcsec d = Inr (Some r) \<and>
               im_image (view st' res) = im_image r"
    using R by blast
  show "view (write_object st' res ob) self = view st' self" for ob
    by (rule view_write_object [OF ne])
  show "\<forall>r\<in>set (object_refs (objs st' ! res)).
             length (cells st) \<le> r \<and> r \<notin> set (object_refs (objs st' ! self)) \<and>
             (\<forall>c. view (write_cell st' r c) self = view st' self)"
    using R fresh_cell_frame [OF assms(1,2) e] by blast
qed

text \<open>Witness of C9: the uniform cube of 2 by 2 pixels in a store, convolved with the
  caller's list \<open>[1, 1]\<close> at 1 pc, and masked with a radius of one pixel.\<close>

theorem derived_cube_frame_witness:
  "store_ok (cube_store (uniform_cube 2 2) [1, 1]) \<and>
   (0::nat) < length (objs (cube_store (uniform_cube 2 2) [1, 1])) \<and>
   (8::nat) < length (cells (cube_store (uniform_cube 2 2) [1, 1])) \<and>
   fst (imConv_store (cube_store (uniform_cube 2 2) [1, 1]) 0 8 0 1) = Inr 1 \<and>
   (let st = cube_store (uniform_cube 2 2) [1, 1];
        st' = snd (imConv_store st 0 8 0 1)
    in view st' 0 = view st 0 \<and> (1::nat) \<noteq> 0 \<and>
       imConv (view st 0) (get_vec st 8) 0 1 = Inr (view st' 1) \<and>
       o_fwhm (objs st' ! 1) = 8 \<and>
       (\<forall>ob. view (write_object st' 1 ob) 0 = view st' 0) \<and>
       (\<forall>r\<in>set (array_refs (objs st' ! 1)).
          length (cells st) \<le> r \<and> r \<notin> set (object_refs (objs st' ! 0)) \<and>
          (\<forall>c. view (write_cell st' r c) 0 = view st' 0))) \<and>
   fst (cmask_store (cube_store (uniform_cube 2 2) [1, 1]) 0 1 False False None) = Inr (Some 1) \<and>
   (let st = cube_store (uniform_cube 2 2) [1, 1];
        st' = snd (cmask_store st 0 1 False False None)
    in view st' 0 = view st 0 \<and> (1::nat) \<noteq> 0 \<and>
       (\<exists>r. cmask (view st 0) 1 False False None = Inr (Some r) \<and>
            im_image (view st' 1) = im_image r) \<and>
       (\<forall>ob. view (write_object st' 1 ob) 0 = view st' 0) \<and>
       (\<forall>r\<in>set (object_refs (objs st' ! 1)).
          length (cells st) \<le> r \<and> r \<notin> set (object_refs (objs st' ! 0)) \<and>
          (\<forall>c. view (write_cell st' r c) 0 = view st' 0)))"
proof -
  let ?c = "uniform_cube 2 2"
  let ?S = "cube_store ?c [1, 1]"
  have ok: "store_ok ?S" and lt: "(0::nat) < length (objs ?S)"
    and lt8: "(8::nat) < length (cells ?S)"
    by (simp_all add: cube_store_props)
  have h: "cube_ok ?c" "\<not> im_stokes ?c" "0 < im_nx ?c" "0 < im_ny ?c" "im_psf ?c = None"
    by (simp_all add: cube_ok_def loader_eval shape3_def)
  have v: "view ?S 0 = ?c" and g: "get_vec ?S 8 = [1, 1]"
    using h(5) by (simp_all add: cube_store_props)
  obtain r where r: "imConv (view ?S 0) (get_vec ?S 8) 0 1 = Inr r"
    unfolding v g using imConv_total_intensity [OF h(1,2,3,4), of 1 1 1 0] by auto
  have f1: "fst (imConv_store ?S 0 8 0 1) = Inr 1"
    using imConv_store_returns [OF ok lt r] by (simp add: cube_store_props)
  have p1: "imConv_store ?S 0 8 0 1 = (Inr 1, snd (imConv_store ?S 0 8 0 1))"
    using f1 by (metis prod.collapse)
  obtain m where m: "cmask (view ?S 0) 1 False False None = Inr (Some m)"
    unfolding v using cmask_masked [of ?c False False None 1] h(1) by auto
  have f2: "fst (cmask_store ?S 0 1 False False None) = Inr (Some 1)"
    using cmask_store_props(3) [OF ok lt _ m,
        where out = "fst (cmask_store ?S 0 1 False False None)"
          and st' = "snd (cmask_store ?S 0 1 False False None)"]
    by (simp add: cube_store_props)
  have p2: "cmask_store ?S 0 1 False False None
            = (Inr (Some 1), snd (cmask_store ?S 0 1 False False None))"
    using f2 by (metis prod.collapse)
  note T = derived_cube_frame [OF ok lt lt8, where pa = 0 and dpc = 1 and rad = 1
      and au = False and arcsec = False and d = None]
  note A = mp [OF spec [OF spec [OF conjunct1 [OF T]]] p1]
  note A2 = mp [OF spec [OF conjunct2 [OF A]] refl]
  note B = mp [OF spec [OF spec [OF conjunct2 [OF T]]] p2]
  note B2 = mp [OF spec [OF conjunct2 [OF B]] refl]
  show ?thesis
    unfolding Let_def
    using ok lt lt8 f1 f2 conjunct1 [OF A] A2 conjunct1 [OF B] B2
    by (intro conjI) (assumption | (elim conjE, assumption))+
qed

text \<open>
  Counterexample to C9 as stated: \<^verbatim>\<open>fw = [1., 1.]\<close>,
  \<^verbatim>\<open>c1 = c0.imConv(fwhm=fw, pa=0., dpc=1.)\<close> and then
  \<^verbatim>\<open>c2 = c1.imConv(fwhm=fw, pa=0., dpc=1.)\<close> on the uniform cube \<open>c0\<close> of 2 by 2 pixels.
  Both calls return; the derived cube \<open>c2\<close> and its source \<open>c1\<close> refer to one list as
  \<^verbatim>\<open>fwhm\<close>, and the write \<^verbatim>\<open>c2.fwhm[0] = 5.\<close> changes \<^verbatim>\<open>c1.fwhm\<close> from \<open>[1, 1]\<close> to
  \<open>[5, 1]\<close>: a write to the result alters the source.
\<close>

theorem derived_cube_shared_fwhm_counterexample:
  "(let st0 = cube_store (uniform_cube 2 2) [1, 1];
        c1 = projr (fst (imConv_store st0 0 8 0 1));
        st1 = snd (imConv_store st0 0 8 0 1);
        c2 = projr (fst (imConv_store st1 c1 8 0 1));
        st2 = snd (imConv_store st1 c1 8 0 1)
    in \<not> isl (fst (imConv_store st0 0 8 0 1)) \<and> \<not> isl (fst (imConv_store st1 c1 8 0 1)) \<and>
       c2 \<noteq> c1 \<and>
       o_fwhm (objs st2 ! c2) \<in> set (object_refs (objs st2 ! c1)) \<and>
       im_fwhm (view st2 c1) = [1, 1] \<and>
       im_fwhm (view (write_cell st2 (o_fwhm (objs st2 ! c2)) (VecCell [5, 1])) c1) = [5, 1] \<and>
       view (write_cell st2 (o_fwhm (objs st2 ! c2)) (VecCell [5, 1])) c1 \<noteq> view st2 c1)"
proof -
  let ?c = "uniform_cube 2 2"
  let ?S = "cube_store ?c [1, 1]"
  define st1 where "st1 = snd (imConv_store ?S 0 8 0 1)"
  define st2 where "st2 = snd (imConv_store st1 1 8 0 1)"
  define c2 where "c2 = length (objs st1)"
  have ok: "store_ok ?S" and lt: "(0::nat) < length (objs ?S)"
    and lt8: "(8::nat) < length (cells ?S)"
    by (simp_all add: cube_store_props)
  have h: "cube_ok ?c" "\<not> im_stokes ?c" "0 < im_nx ?c" "0 < im_ny ?c" "im_psf ?c = None"
    by (simp_all add: cube_ok_def loader_eval shape3_def)
  have v: "view ?S 0 = ?c" and g: "get_vec ?S 8 = [1, 1]"
    using h(5) by (simp_all add: cube_store_props)
  obtain r where r: "imConv (view ?S 0) (get_vec ?S 8) 0 1 = Inr r"
    unfolding v g using imConv_total_intensity [OF h(1,2,3,4), of 1 1 1 0] by auto
  have f1: "fst (imConv_store ?S 0 8 0 1) = Inr 1"
    using imConv_store_returns [OF ok lt r] by (simp add: cube_store_props)
  have p1: "imConv_store ?S 0 8 0 1 = (Inr 1, st1)"
    unfolding st1_def using f1 by (metis prod.collapse)
  note R1 = imConv_store_Inr [OF ok lt lt8 p1]
  have lt8': "8 < length (cells st1)"
    using R1(1) lt8 by (simp add: extends_def)
  have g1: "get_vec st1 8 = [1, 1]"
    using extends_nth(1) [OF R1(1) lt8] g by (simp add: get_vec_def)
  have r1: "imConv ?c [1, 1] 0 1 = Inr (view st1 1)"
    using R1(6) unfolding v g .
  note C1 = imConv_cube_ok [OF h(1,2,3,4) r1]
  have pos: "0 < im_nx (view st1 1)" "0 < im_ny (view st1 1)"
    using C1(3,4) h(3,4) by simp_all
  obtain r' where r': "imConv (view st1 1) (get_vec st1 8) 0 1 = Inr r'"
    unfolding g1 using imConv_total_intensity [OF C1(1,2) pos, of 1 1 1 0] by auto
  have f2: "fst (imConv_store st1 1 8 0 1) = Inr c2"
    unfolding c2_def by (rule imConv_store_returns [OF R1(7,3) r'])
  have p2: "imConv_store st1 1 8 0 1 = (Inr c2, st2)"
    unfolding st2_def using f2 by (metis prod.collapse)
  note R2 = imConv_store_Inr [OF R1(7,3) lt8' p2]
  have ne: "c2 \<noteq> 1"
    using R1(3) by (simp add: c2_def)
  have o1: "objs st2 ! 1 = objs st1 ! 1"
    using extends_nth(2) [OF R2(1) R1(3)] .
  have s: "o_fwhm (objs st2 ! c2) = 8" "o_fwhm (objs st2 ! 1) = 8"
    using R2(5) R1(5) o1 by simp_all
  have lt8'': "8 < length (cells st2)"
    using R2(1) lt8' by (simp add: extends_def)
  have g2: "get_vec st2 8 = [1, 1]"
    using extends_nth(1) [OF R2(1) lt8'] g1 by (simp add: get_vec_def)
  have a: "im_fwhm (view st2 1) = [1, 1]"
    using g2 s by (simp add: view_def Let_def)
  have b: "im_fwhm (view (write_cell st2 8 (VecCell [5, 1])) 1) = [5, 1]"
    using lt8'' s by (simp add: view_def Let_def write_cell_def get_vec_def)
  have d: "view (write_cell st2 8 (VecCell [5, 1])) 1 \<noteq> view st2 1"
  proof
    assume "view (write_cell st2 8 (VecCell [5, 1])) 1 = view st2 1"
    then have "im_fwhm (view (write_cell st2 8 (VecCell [5, 1])) 1) = im_fwhm (view st2 1)"
      by simp
    then show False
      unfolding a b by simp
  qed
  have m: "o_fwhm (objs st2 ! c2) \<in> set (object_refs (objs st2 ! 1))"
    using s by (simp add: object_refs_def)
  show ?thesis
    unfolding Let_def f1 sum.sel st1_def [symmetric] f2 st2_def [symmetric]
    using ne m a b d s by simp
qed

end
